theory Spec2Isabelle
  imports Main "HOL-Library.AList" "HOL-Library.Multiset"
begin

section \<open>JavaScript array helpers\<close>

text \<open>
  \<open>Array.prototype.slice(start, end)\<close> on integer arguments: a negative argument counts
  from the end of the array, and both ends are clamped to the array.
\<close>

definition js_rel_index :: "int \<Rightarrow> nat \<Rightarrow> nat" where
  "js_rel_index k len = (if k < 0 then nat (max (int len + k) 0) else min (nat k) len)"

definition js_slice :: "int \<Rightarrow> int \<Rightarrow> 'a list \<Rightarrow> 'a list" where
  "js_slice start fin xs =
     (let k = js_rel_index start (length xs); e = js_rel_index fin (length xs)
      in take (e - k) (drop k xs))"

definition js_slice_from :: "int \<Rightarrow> 'a list \<Rightarrow> 'a list" where
  "js_slice_from start xs = drop (js_rel_index start (length xs)) xs"

section \<open>The history tracker (ThreadshiftHistoryTracker)\<close>

text \<open>
  The \<open>data\<close> field of an entry: a falsy value (undefined, null, empty string, zero), a truthy
  value that is not an object (a string, a number), or an object. The string carried is the
  JSON text of the value, of which the validation reads the length only.
\<close>

datatype entry_data = DataFalsy | DataPrimitive string | DataObject string

datatype entry_time = TimeMissing | TimeInvalid | TimeValid nat

record history_entry =
  he_id :: string
  he_type :: string
  he_description :: string
  he_timestamp :: entry_time
  he_data :: entry_data

record history_tracker =
  history :: "history_entry list"
  currentIndex :: int
  maxHistorySize :: int
  isRecording :: bool
  isDirty :: bool
  totalEntries :: int
  undoOperations :: nat
  redoOperations :: nat
  cleanupOperations :: nat
  storageOperations :: nat
  tracker_errors :: "string list"

record op_result =
  or_success :: bool
  or_error :: "string option"
  or_entry :: "history_entry option"
  or_newIndex :: "int option"

definition validTypes :: "string list" where
  "validTypes = [''swap'', ''reverse'', ''batch'', ''manual'', ''import'', ''system'']"

definition data_truthy :: "entry_data \<Rightarrow> bool" where
  "data_truthy d = (d \<noteq> DataFalsy)"

definition data_json_length :: "entry_data \<Rightarrow> nat" where
  "data_json_length d =
     (case d of DataFalsy \<Rightarrow> 0 | DataPrimitive s \<Rightarrow> length s | DataObject s \<Rightarrow> length s)"

text \<open>\<open>validateHistoryEntry\<close>: the list of error messages; the entry is valid when it is empty.\<close>

definition validateHistoryEntry :: "history_entry \<Rightarrow> string list" where
  "validateHistoryEntry entry =
     (if he_id entry = [] then [''Missing required field: id''] else []) @
     (if he_type entry = [] then [''Missing required field: type''] else []) @
     (if he_timestamp entry = TimeMissing then [''Missing required field: timestamp''] else []) @
     (if \<not> data_truthy (he_data entry) then [''Missing required field: data''] else []) @
     (if he_type entry \<noteq> [] \<and> he_type entry \<notin> set validTypes
        then [''Invalid entry type''] else []) @
     (if 500 < length (he_description entry) then [''Description too long''] else []) @
     (if data_truthy (he_data entry) \<and> 10000 < data_json_length (he_data entry)
        then [''Data too large''] else []) @
     (if he_timestamp entry = TimeInvalid then [''Invalid timestamp format''] else [])"

definition entry_valid :: "history_entry \<Rightarrow> bool" where
  "entry_valid entry = (validateHistoryEntry entry = [])"

definition canUndo :: "history_tracker \<Rightarrow> bool" where
  "canUndo s = (0 \<le> currentIndex s \<and> 0 < length (history s))"

definition canRedo :: "history_tracker \<Rightarrow> bool" where
  "canRedo s = (currentIndex s < int (length (history s)) - 1)"

definition enforceHistoryLimit :: "history_tracker \<Rightarrow> history_tracker" where
  "enforceHistoryLimit s =
     (if maxHistorySize s < int (length (history s))
      then (let excess = int (length (history s)) - maxHistorySize s
            in s\<lparr>history := js_slice_from excess (history s),
                 currentIndex := max 0 (currentIndex s - excess)\<rparr>)
      else s)"

definition addEntryToHistory :: "history_entry \<Rightarrow> history_tracker \<Rightarrow> history_tracker" where
  "addEntryToHistory entry s =
     (let h = (if currentIndex s < int (length (history s)) - 1
               then js_slice 0 (currentIndex s + 1) (history s) else history s);
          h' = h @ [entry];
          s1 = s\<lparr>history := h', currentIndex := int (length h') - 1,
                 totalEntries := totalEntries s + 1\<rparr>
      in (enforceHistoryLimit s1)\<lparr>isDirty := True\<rparr>)"

text \<open>
  \<open>recordTransformation\<close>: the entry is built by \<open>createHistoryEntry\<close> from the generated id
  and the clock, validated, and added. The result is the id of the entry, or null.
\<close>

definition createHistoryEntry ::
  "string \<Rightarrow> nat \<Rightarrow> string \<Rightarrow> entry_data \<Rightarrow> string \<Rightarrow> history_entry" where
  "createHistoryEntry eid now ty dat descr =
     \<lparr>he_id = eid, he_type = ty, he_description = descr,
      he_timestamp = TimeValid now, he_data = dat\<rparr>"

definition recordTransformation ::
  "string \<Rightarrow> nat \<Rightarrow> string \<Rightarrow> entry_data \<Rightarrow> string \<Rightarrow> history_tracker
     \<Rightarrow> string option \<times> history_tracker" where
  "recordTransformation eid now ty dat descr s =
     (if \<not> isRecording s then (None, s)
      else (let entry = createHistoryEntry eid now ty dat descr
            in if \<not> entry_valid entry
               then (None, s\<lparr>tracker_errors := tracker_errors s @ [''recordTransformation'']\<rparr>)
               else (Some (he_id entry), addEntryToHistory entry s)))"

text \<open>
  \<open>executeUndo\<close> and \<open>executeRedo\<close> are the placeholders of the source: they report success
  for every entry. Reading \<open>entry.type\<close> of an entry that is not there (an index outside
  the log) throws; \<open>undo\<close> and \<open>redo\<close> catch that and report a failure.
\<close>

definition executeUndo :: "history_entry option \<Rightarrow> string + bool" where
  "executeUndo entry = (case entry of None \<Rightarrow> Inl ''TypeError'' | Some _ \<Rightarrow> Inr True)"

definition executeRedo :: "history_entry option \<Rightarrow> string + bool" where
  "executeRedo entry = (case entry of None \<Rightarrow> Inl ''TypeError'' | Some _ \<Rightarrow> Inr True)"

definition entry_at :: "history_entry list \<Rightarrow> int \<Rightarrow> history_entry option" where
  "entry_at h i = (if 0 \<le> i \<and> i < int (length h) then Some (h ! nat i) else None)"

definition failure :: "string option \<Rightarrow> op_result" where
  "failure msg = \<lparr>or_success = False, or_error = msg, or_entry = None, or_newIndex = None\<rparr>"

text \<open>
  \<open>undo\<close> and \<open>redo\<close> are asynchronous: each awaits the result of \<open>executeUndo\<close> or
  \<open>executeRedo\<close>, and another call can run while it waits. \<open>undoBegin\<close> is the part of \<open>undo\<close>
  before the \<open>await\<close> (the test, and the entry read at the current index), \<open>undoResume\<close> the
  part after it, which works on the state it finds then. \<open>undo\<close> is a call that resumes
  before any other call starts. \<open>redo\<close> moves the index before it waits.
\<close>

definition undoBegin :: "history_tracker \<Rightarrow> op_result + history_entry option" where
  "undoBegin s =
     (if \<not> canUndo s then Inl (failure (Some ''No operations to undo''))
      else Inr (entry_at (history s) (currentIndex s)))"

definition undoResume :: "history_entry option \<Rightarrow> history_tracker \<Rightarrow> op_result \<times> history_tracker" where
  "undoResume entry s =
     (case executeUndo entry of
        Inl msg \<Rightarrow> (failure (Some msg), s\<lparr>tracker_errors := tracker_errors s @ [''undo'']\<rparr>)
      | Inr ok \<Rightarrow>
          if ok
          then (\<lparr>or_success = True, or_error = None, or_entry = entry,
                 or_newIndex = Some (currentIndex s - 1)\<rparr>,
                s\<lparr>currentIndex := currentIndex s - 1,
                  undoOperations := undoOperations s + 1\<rparr>)
          else (failure None, s))"

definition undo :: "history_tracker \<Rightarrow> op_result \<times> history_tracker" where
  "undo s = (case undoBegin s of Inl r \<Rightarrow> (r, s) | Inr entry \<Rightarrow> undoResume entry s)"

definition redoBegin ::
  "history_tracker \<Rightarrow> op_result + (history_entry option \<times> history_tracker)" where
  "redoBegin s =
     (if \<not> canRedo s then Inl (failure (Some ''No operations to redo''))
      else (let s1 = s\<lparr>currentIndex := currentIndex s + 1\<rparr>
            in Inr (entry_at (history s1) (currentIndex s1), s1)))"

definition redoResume :: "history_entry option \<Rightarrow> history_tracker \<Rightarrow> op_result \<times> history_tracker" where
  "redoResume entry s =
     (case executeRedo entry of
        Inl msg \<Rightarrow>
          (failure (Some msg),
           s\<lparr>tracker_errors := tracker_errors s @ [''redo''],
             currentIndex := currentIndex s - 1\<rparr>)
      | Inr ok \<Rightarrow>
          if ok
          then (\<lparr>or_success = True, or_error = None, or_entry = entry,
                 or_newIndex = Some (currentIndex s)\<rparr>,
                s\<lparr>redoOperations := redoOperations s + 1\<rparr>)
          else (failure None, s\<lparr>currentIndex := currentIndex s - 1\<rparr>))"

definition redo :: "history_tracker \<Rightarrow> op_result \<times> history_tracker" where
  "redo s = (case redoBegin s of Inl r \<Rightarrow> (r, s) | Inr (entry, s1) \<Rightarrow> redoResume entry s1)"

text \<open>
  \<open>saveToStorage\<close> catches a storage failure itself; \<open>ok\<close> says whether the store accepted
  the write.
\<close>

definition saveToStorage :: "bool \<Rightarrow> history_tracker \<Rightarrow> history_tracker" where
  "saveToStorage ok s =
     (if ok then s\<lparr>storageOperations := storageOperations s + 1, isDirty := False\<rparr>
      else s\<lparr>tracker_errors := tracker_errors s @ [''saveToStorage'']\<rparr>)"

text \<open>
  \<open>loadHistoryFromStorage\<close>: a stored log that is not empty replaces the log as it is, with
  the index at its last entry; the capacity is not applied to it. \<open>None\<close> is a storage call
  that throws: the log is emptied.
\<close>

definition loadHistoryFromStorage ::
  "history_entry list option \<Rightarrow> history_tracker \<Rightarrow> history_tracker" where
  "loadHistoryFromStorage stored s =
     (case stored of
        None \<Rightarrow> s\<lparr>tracker_errors := tracker_errors s @ [''loadHistoryFromStorage''],
                   history := [], currentIndex := - 1\<rparr>
      | Some storedHistory \<Rightarrow>
          if storedHistory \<noteq> []
          then s\<lparr>history := storedHistory, currentIndex := int (length storedHistory) - 1,
                 totalEntries := int (length storedHistory)\<rparr>
          else s)"

text \<open>\<open>clearHistory(confirm)\<close> throws without the confirmation (\<open>Inl\<close>).\<close>

definition clearHistory :: "bool \<Rightarrow> bool \<Rightarrow> history_tracker \<Rightarrow> string + (bool \<times> history_tracker)" where
  "clearHistory confirm ok s =
     (if \<not> confirm then Inl ''History clearing requires confirmation''
      else Inr (True, saveToStorage ok (s\<lparr>history := [], currentIndex := - 1, totalEntries := 0\<rparr>)))"

text \<open>
  \<open>importHistory\<close>: the import data is null (\<open>None\<close>) or an object with an optional history
  array and an optional version. With \<open>merge\<close> the valid imported entries are appended and
  the whole log is sorted by timestamp (a stable sort), otherwise they replace the log.
  An entry of the log whose timestamp is not a date makes the comparator give NaN, and the
  order is then left to the JavaScript engine; such an entry counts as time 0 here, and
  the properties below depend on the length of the sorted log only.
\<close>

record import_data =
  imp_history :: "history_entry list option"
  imp_version :: "string option"

definition validateImportData :: "import_data option \<Rightarrow> string list" where
  "validateImportData imp =
     (case imp of
        None \<Rightarrow> [''Import data must be an object'']
      | Some d \<Rightarrow>
          (if imp_history d = None then [''Import data must contain a history array''] else []) @
          (case imp_version d of
             None \<Rightarrow> []
           | Some v \<Rightarrow> if v \<noteq> [] \<and> v \<noteq> ''1.0.0'' then [''Unsupported version''] else []))"

definition entry_time_value :: "history_entry \<Rightarrow> nat" where
  "entry_time_value entry = (case he_timestamp entry of TimeValid t \<Rightarrow> t | _ \<Rightarrow> 0)"

definition importHistory ::
  "import_data option \<Rightarrow> bool \<Rightarrow> bool \<Rightarrow> history_tracker \<Rightarrow> bool \<times> history_tracker" where
  "importHistory imp merge ok s =
     (if validateImportData imp \<noteq> [] then (False, s)
      else (let imported = (case imp of None \<Rightarrow> []
                            | Some d \<Rightarrow> (case imp_history d of None \<Rightarrow> [] | Some h \<Rightarrow> h));
                valid = filter entry_valid imported;
                h = (if merge then sort_key entry_time_value (history s @ valid) else valid);
                s1 = s\<lparr>history := h, currentIndex := int (length h) - 1,
                       totalEntries := int (length h)\<rparr>
            in (True, saveToStorage ok (enforceHistoryLimit s1))))"

definition cleanupOrphanedReferences :: "history_tracker \<Rightarrow> history_tracker" where
  "cleanupOrphanedReferences s =
     (let h = filter (\<lambda>entry. case he_data entry of DataObject _ \<Rightarrow> True | _ \<Rightarrow> False) (history s)
      in if length h \<noteq> length (history s)
         then s\<lparr>history := h, currentIndex := min (currentIndex s) (int (length h) - 1)\<rparr>
         else s\<lparr>history := h\<rparr>)"

definition tracker_performCleanup :: "history_tracker \<Rightarrow> history_tracker" where
  "tracker_performCleanup s =
     (let s1 = cleanupOrphanedReferences (enforceHistoryLimit s)
      in s1\<lparr>cleanupOperations := cleanupOperations s1 + 1\<rparr>)"

text \<open>
  The listener of \<open>config-changed\<close>: a new value of \<open>performance.maxHistoryEntries\<close> is
  stored as it comes and the log is trimmed to it.
\<close>

definition onConfigChanged :: "string \<Rightarrow> int \<Rightarrow> history_tracker \<Rightarrow> history_tracker" where
  "onConfigChanged key val s =
     (if key = ''performance.maxHistoryEntries''
      then enforceHistoryLimit (s\<lparr>maxHistorySize := val\<rparr>) else s)"

text \<open>The bound on the index that the tracker is meant to keep.\<close>

definition index_in_range :: "history_tracker \<Rightarrow> bool" where
  "index_in_range s = (- 1 \<le> currentIndex s \<and> currentIndex s \<le> int (length (history s)) - 1)"

section \<open>The character cache (ThreadshiftMultiCharacterHandler)\<close>

text \<open>
  A cached character state is read by the cache through \<open>calculateStateSize\<close> only, which
  is twice the length of its JSON text; the state carries that length. The three
  \<open>Map\<close>s of the handler are association lists in insertion order: \<open>Map.set\<close> is
  \<open>AList.update\<close>, \<open>Map.delete\<close> is \<open>AList.delete\<close>, \<open>Map.get\<close> is \<open>map_of\<close>.
\<close>

type_synonym char_id = string

record character_state =
  cs_displayName :: string
  cs_jsonLength :: nat

record character_handler =
  activeCharacterId :: "char_id option"
  characterCache :: "(char_id \<times> character_state) list"
  characterStates :: "(char_id \<times> character_state) list"
  lastAccessTimes :: "(char_id \<times> nat) list"
  maxCachedCharacters :: int
  maxMemoryMB :: int
  memoryThresholdMB :: int
  memoryUsageBytes :: int
  autoSaveEnabled :: bool
  evictions :: nat
  cachedCharacters :: nat
  memoryPressureEvents :: nat
  saveRequests :: "char_id list"

definition calculateStateSize :: "character_state \<Rightarrow> int" where
  "calculateStateSize st = int (cs_jsonLength st) * 2"

definition memoryBudgetBytes :: "character_handler \<Rightarrow> int" where
  "memoryBudgetBytes h = maxMemoryMB h * 1024 * 1024"

text \<open>
  The first loop of \<open>evictCharacters\<close>: it walks the candidates in least-recently-used
  order, puts every candidate that has a cached state on the eviction list, and stops as
  soon as enough bytes are freed and the cache would be under its maximal count.
\<close>

fun collectEvictions ::
  "character_handler \<Rightarrow> int \<Rightarrow> char_id list \<Rightarrow> (char_id \<times> int) list \<Rightarrow> int
     \<Rightarrow> (char_id \<times> int) list \<times> int" where
  "collectEvictions h requiredBytes [] toEvict bytesFreed = (toEvict, bytesFreed)"
| "collectEvictions h requiredBytes (c # cs) toEvict bytesFreed =
     (case map_of (characterCache h) c of
        None \<Rightarrow> collectEvictions h requiredBytes cs toEvict bytesFreed
      | Some st \<Rightarrow>
          (let stateSize = calculateStateSize st;
               toEvict' = toEvict @ [(c, stateSize)];
               bytesFreed' = bytesFreed + stateSize
           in if requiredBytes \<le> bytesFreed'
                 \<and> int (length (characterCache h)) - int (length toEvict') < maxCachedCharacters h
              then (toEvict', bytesFreed')
              else collectEvictions h requiredBytes cs toEvict' bytesFreed'))"

text \<open>
  The second loop: each listed character is flushed (a save request, when auto-save is on),
  removed from the three maps, and its size is taken off the tracked usage.
\<close>

definition evictOne :: "char_id \<times> int \<Rightarrow> character_handler \<Rightarrow> character_handler" where
  "evictOne e h =
     h\<lparr>saveRequests := (if autoSaveEnabled h then saveRequests h @ [fst e] else saveRequests h),
       characterCache := AList.delete (fst e) (characterCache h),
       characterStates := AList.delete (fst e) (characterStates h),
       lastAccessTimes := AList.delete (fst e) (lastAccessTimes h),
       memoryUsageBytes := memoryUsageBytes h - snd e,
       evictions := evictions h + 1\<rparr>"

definition evictionCandidates :: "character_handler \<Rightarrow> char_id list" where
  "evictionCandidates h =
     map fst (sort_key snd
       (filter (\<lambda>e. Some (fst e) \<noteq> activeCharacterId h) (lastAccessTimes h)))"

definition evictCharacters :: "int \<Rightarrow> character_handler \<Rightarrow> character_handler" where
  "evictCharacters requiredBytes h =
     (if length (characterCache h) = 0 then h
      else (let toEvict = fst (collectEvictions h requiredBytes (evictionCandidates h) [] 0);
                h1 = fold evictOne toEvict h;
                h2 = h1\<lparr>cachedCharacters := length (characterCache h1)\<rparr>
            in if memoryThresholdMB h2 * 1024 * 1024 < memoryUsageBytes h2
               then h2\<lparr>memoryPressureEvents := memoryPressureEvents h2 + 1\<rparr>
               else h2))"

text \<open>\<open>cacheCharacter(characterId, state)\<close> at the time \<open>now\<close>.\<close>

definition cacheCharacter ::
  "char_id \<Rightarrow> character_state \<Rightarrow> nat \<Rightarrow> character_handler \<Rightarrow> bool \<times> character_handler" where
  "cacheCharacter cid st now h =
     (if cid = [] then (False, h)
      else (let stateSize = calculateStateSize st;
                h1 = (if memoryBudgetBytes h < memoryUsageBytes h + stateSize
                      then evictCharacters stateSize h else h);
                h2 = (if maxCachedCharacters h1 \<le> int (length (characterCache h1))
                      then evictCharacters 0 h1 else h1);
                h3 = h2\<lparr>characterCache := AList.update cid st (characterCache h2),
                        characterStates := AList.update cid st (characterStates h2),
                        lastAccessTimes := AList.update cid now (lastAccessTimes h2),
                        memoryUsageBytes := memoryUsageBytes h2 + stateSize\<rparr>
            in (True, h3\<lparr>cachedCharacters := length (characterCache h3)\<rparr>)))"

text \<open>
  The part of \<open>switchCharacter\<close> that the cache sees once the state of the new character
  has been asked for: the character becomes the active one and its access time is set,
  also when no state could be loaded for it (\<open>createIfMissing\<close> on a character that the
  store does not have).
\<close>

definition activateCharacter :: "char_id \<Rightarrow> nat \<Rightarrow> character_handler \<Rightarrow> character_handler" where
  "activateCharacter cid now h =
     h\<lparr>activeCharacterId := Some cid,
       lastAccessTimes := AList.update cid now (lastAccessTimes h)\<rparr>"

text \<open>Well-formedness of the three maps: keys are unique, every cached state has an access time.\<close>

definition cache_wf :: "character_handler \<Rightarrow> bool" where
  "cache_wf h =
     (distinct (map fst (characterCache h)) \<and> distinct (map fst (lastAccessTimes h))
      \<and> set (map fst (characterCache h)) \<subseteq> set (map fst (lastAccessTimes h)))"

definition only_pinned_cached :: "character_handler \<Rightarrow> bool" where
  "only_pinned_cached h =
     (set (map fst (characterCache h)) \<subseteq> set_option (activeCharacterId h))"

section \<open>The zone swap engine (ThreadshiftZoneSwapEngine)\<close>

subsection \<open>Data\<close>

text \<open>
  A body map is a JavaScript object from zone names to zone data. It is given here by what
  reading it gives: \<open>m z\<close> is the value of \<open>bodyMap[z]\<close>, and \<open>None\<close> is undefined. The body maps
  of the store are plain objects, as the object spreads of the engine make them. Zone data is
  null, a string or an object (given by its fields), and also what an object reads at a
  name that it only inherits from \<open>Object.prototype\<close>: a function (\<open>ZFunction\<close>) at the names
  of the methods, the prototype itself (\<open>ZPrototype\<close>) at \<open>__proto__\<close>. Null and the empty
  string are falsy.
\<close>

type_synonym zone = string

datatype zone_data =
  ZNull | ZStr string | ZObj "(string \<times> string) list" | ZFunction | ZPrototype

type_synonym body_map = "zone \<Rightarrow> zone_data option"

definition truthy :: "zone_data \<Rightarrow> bool" where
  "truthy v =
     (case v of ZNull \<Rightarrow> False | ZStr s \<Rightarrow> s \<noteq> [] | ZObj _ \<Rightarrow> True
      | ZFunction \<Rightarrow> True | ZPrototype \<Rightarrow> True)"

text \<open>
  What a plain object, such as one parsed from JSON or written as a literal, reads at a
  name of which it has no property of its own.
\<close>

definition objectPrototypeMethods :: "string list" where
  "objectPrototypeMethods =
     [''constructor'', ''hasOwnProperty'', ''isPrototypeOf'', ''propertyIsEnumerable'',
      ''toLocaleString'', ''toString'', ''valueOf'', ''__defineGetter__'',
      ''__defineSetter__'', ''__lookupGetter__'', ''__lookupSetter__'']"

definition inherited :: "zone \<Rightarrow> zone_data option" where
  "inherited z =
     (if z \<in> set objectPrototypeMethods then Some ZFunction
      else if z = ''__proto__'' then Some ZPrototype
      else None)"

text \<open>The plain object with the given properties of its own.\<close>

definition plainObject :: "(zone \<times> zone_data) list \<Rightarrow> body_map" where
  "plainObject props z = (case map_of props z of Some v \<Rightarrow> Some v | None \<Rightarrow> inherited z)"

text \<open>
  \<open>JSON.parse(JSON.stringify(v))\<close> of a truthy value: \<open>JSON.stringify\<close> of a function is
  undefined, which \<open>JSON.parse\<close> refuses with a \<open>SyntaxError\<close> (\<open>None\<close>); the prototype object
  has no enumerable property and comes back as the empty object.
\<close>

definition jsonClone :: "zone_data \<Rightarrow> zone_data option" where
  "jsonClone v =
     (case v of ZFunction \<Rightarrow> None | ZPrototype \<Rightarrow> Some (ZObj []) | _ \<Rightarrow> Some v)"

type_synonym swap_id = "nat \<times> nat"

datatype swap_status = Active | Reversed | Failed

text \<open>Every \<open>throw\<close> of the engine and of the storage calls it makes.\<close>

datatype swap_error =
    EngineNotReady
  | MissingParameters
  | SameCharacter
  | InvalidGarmentId
  | InvalidGarmentFormat string
  | InvalidGarmentTypeIndex string
  | MapperFailure
  | NoZonesFound string
  | ValidationFailed "string list"
  | ValidatorFailure
  | StorageFailure
  | InvalidCharacterId
  | MissingBodyMap
  | ReciprocalFailure
  | ActiveSwapNotFound swap_id
  | SwapNotActive swap_id swap_status
  | NoOriginalStates swap_id
  | JsonSyntaxError

record garment =
  g_id :: string
  g_characterId :: string
  g_type :: string
  g_zones :: "zone list"

record swap_data =
  sd_id :: swap_id
  sd_sourceCharId :: char_id
  sd_targetCharId :: char_id
  sd_zones :: "zone list"
  sd_garment :: garment
  sd_timestamp :: nat
  sd_status :: swap_status
  sd_reciprocal :: bool
  sd_originalStates :: "(body_map \<times> body_map) option"
  sd_reversedAt :: "nat option"

record zone_result =
  zr_zone :: zone
  zr_success :: bool
  zr_sourceData :: "zone_data option"
  zr_targetData :: "zone_data option"
  zr_error :: "swap_error option"

record swap_result =
  sr_success :: bool
  sr_swapId :: swap_id
  sr_zones :: "zone list option"
  sr_results :: "zone_result list"
  sr_error :: "swap_error option"
  sr_timestamp :: nat

record reverse_result =
  rr_success :: bool
  rr_swapId :: swap_id
  rr_reversedAt :: "nat option"
  rr_error :: "swap_error option"

record validation =
  v_valid :: bool
  v_errors :: "string list"

record error_info =
  ei_context :: string
  ei_message :: swap_error
  ei_critical :: bool

text \<open>
  The engine with what it reaches through globals. The collaborators are not part of the
  sources and are parameters: the zone mapper gives the zones of a garment type or throws
  (\<open>None\<close>), the validator gives a validation or throws, the reciprocal handler completes
  (\<open>True\<close>) or throws. The storage is a map from character ids to body maps; \<open>faults\<close> is
  the schedule of the storage calls to come, one flag for each call in order, where
  \<open>True\<close> makes the call throw; an exhausted schedule means no further fault.
\<close>

record engine =
  initialized :: bool
  enabled :: bool
  activeSwaps :: "(swap_id \<times> swap_data) list"
  swapHistory :: "swap_data list"
  swapCounter :: nat
  autoValidation :: bool
  validateTransformations :: bool
  allowPartialTransformations :: bool
  reciprocalTransformations :: bool
  bidirectionalSwaps :: bool
  historyLimit :: int
  totalSwaps :: nat
  successfulSwaps :: nat
  failedSwaps :: nat
  reversedSwaps :: nat
  validationErrors :: nat
  engine_errors :: "error_info list"
  garmentZoneMapper :: "(string \<Rightarrow> zone list option) option"
  bodyMapValidator ::
    "(body_map option \<Rightarrow> body_map option \<Rightarrow> zone list \<Rightarrow> validation option) option"
  reciprocalSwapHandler :: "(swap_data \<Rightarrow> bool) option"
  bodyMaps :: "char_id \<Rightarrow> body_map option"
  faults :: "bool list"
  clock :: nat

subsection \<open>The module base: readiness, error log, safe operations\<close>

definition isReady :: "engine \<Rightarrow> bool" where
  "isReady e = (initialized e \<and> enabled e)"

definition handleError :: "string \<Rightarrow> swap_error \<Rightarrow> bool \<Rightarrow> engine \<Rightarrow> engine" where
  "handleError ctx err critical e =
     (let e1 = e\<lparr>engine_errors := engine_errors e
                  @ [\<lparr>ei_context = ctx, ei_message = err, ei_critical = critical\<rparr>]\<rparr>
      in if critical then e1\<lparr>enabled := False\<rparr> else e1)"

text \<open>
  \<open>safeOperation(name, operation, fallback)\<close> with the fallback null of both callers: an
  error thrown by the operation is logged and null (\<open>None\<close>) is returned.

  The events of the module (\<open>fireEvent\<close>) are left out: an error of an event handler is caught
  where the event is fired, and firing an event changes none of the fields of the engine.
\<close>

definition safeOperation ::
  "string \<Rightarrow> (engine \<Rightarrow> (swap_error + 'a) \<times> engine) \<Rightarrow> engine \<Rightarrow> 'a option \<times> engine" where
  "safeOperation operationName operation e =
     (if \<not> isReady e then (None, e)
      else (case operation e of
              (Inl err, e1) \<Rightarrow> (None, handleError operationName err False e1)
            | (Inr r, e1) \<Rightarrow> (Some r, e1)))"

subsection \<open>Storage\<close>

definition storageCall :: "engine \<Rightarrow> bool \<times> engine" where
  "storageCall e = (case faults e of [] \<Rightarrow> (False, e) | f # fs \<Rightarrow> (f, e\<lparr>faults := fs\<rparr>))"

definition loadCharacterBodyMap ::
  "char_id \<Rightarrow> engine \<Rightarrow> (swap_error + body_map option) \<times> engine" where
  "loadCharacterBodyMap cid e =
     (case storageCall e of
        (f, e1) \<Rightarrow>
          if f then (Inl StorageFailure, e1)
          else if cid = [] then (Inl InvalidCharacterId, e1)
          else (Inr (bodyMaps e1 cid), e1))"

definition saveCharacterBodyMap ::
  "char_id \<Rightarrow> body_map \<Rightarrow> engine \<Rightarrow> (swap_error + bool) \<times> engine" where
  "saveCharacterBodyMap cid m e =
     (case storageCall e of
        (f, e1) \<Rightarrow>
          if f then (Inl StorageFailure, e1)
          else if cid = [] then (Inl InvalidCharacterId, e1)
          else (Inr True, e1\<lparr>bodyMaps := (bodyMaps e1)(cid \<mapsto> m)\<rparr>))"

subsection \<open>Garments and zones\<close>

fun js_split :: "char \<Rightarrow> string \<Rightarrow> string list" where
  "js_split d [] = [[]]"
| "js_split d (c # cs) =
     (if c = d then [] # js_split d cs
      else (case js_split d cs of [] \<Rightarrow> [[c]] | p # ps \<Rightarrow> (c # p) # ps))"

text \<open>
  The white space and line terminators that \<open>parseInt\<close> skips, among the characters of a
  \<open>string\<close>, which are the code units below 256: tab, line feed, vertical tab, form feed,
  carriage return, space and the no-break space.
\<close>

definition js_whitespace :: "char \<Rightarrow> bool" where
  "js_whitespace c =
     (c \<in> set [CHR '' '', CHR 0x09, CHR 0x0A, CHR 0x0B, CHR 0x0C, CHR 0x0D, CHR 0xA0])"

definition is_digit :: "char \<Rightarrow> bool" where
  "is_digit c = (48 \<le> (of_char c :: nat) \<and> (of_char c :: nat) \<le> 57)"

definition digits_value :: "string \<Rightarrow> nat" where
  "digits_value ds = foldl (\<lambda>n c. 10 * n + ((of_char c :: nat) - 48)) 0 ds"

text \<open>\<open>parseInt(s, 10)\<close>; \<open>None\<close> is NaN.\<close>

definition js_parseInt :: "string \<Rightarrow> int option" where
  "js_parseInt s =
     (let s1 = dropWhile js_whitespace s;
          neg = (case s1 of [] \<Rightarrow> False | c # _ \<Rightarrow> c = CHR ''-'');
          s2 = (case s1 of [] \<Rightarrow> []
                | c # r \<Rightarrow> if c = CHR ''-'' \<or> c = CHR ''+'' then r else s1);
          ds = takeWhile is_digit s2
      in if ds = [] then None
         else Some (if neg then - int (digits_value ds) else int (digits_value ds)))"

definition garmentTypes :: "string list" where
  "garmentTypes =
     [''bra'', ''panties'', ''dress'', ''shirt'', ''pants'', ''skirt'', ''shoes'', ''socks'']"

text \<open>
  The fallback table of \<open>getZonesForGarment\<close>, with the empty list of \<open>|| []\<close> at a name that
  the table does not have. The engine reads it at the garment types of \<open>getGarmentById\<close>
  only, the eight names above; the names that the table object inherits, at which the
  source reads a function, are not among them.
\<close>

definition zoneMapping :: "string \<Rightarrow> zone list" where
  "zoneMapping garmentType =
     (if garmentType = ''bra'' then [''chest'']
      else if garmentType = ''panties'' then [''genitals'']
      else if garmentType = ''dress'' then [''chest'', ''waist'', ''hips'']
      else if garmentType = ''shirt'' then [''chest'', ''waist'']
      else if garmentType = ''pants'' then [''waist'', ''hips'', ''legs'']
      else if garmentType = ''skirt'' then [''waist'', ''hips'']
      else if garmentType = ''shoes'' then [''feet'']
      else if garmentType = ''socks'' then [''feet'']
      else [])"

definition getZonesForGarment :: "string \<Rightarrow> engine \<Rightarrow> swap_error + zone list" where
  "getZonesForGarment garmentType e =
     (case garmentZoneMapper e of
        Some mapper \<Rightarrow>
          (case mapper garmentType of None \<Rightarrow> Inl MapperFailure | Some zs \<Rightarrow> Inr zs)
      | None \<Rightarrow> Inr (zoneMapping garmentType))"

definition getGarmentById :: "string \<Rightarrow> engine \<Rightarrow> swap_error + garment" where
  "getGarmentById garmentId e =
     (if garmentId = [] then Inl InvalidGarmentId
      else (case js_split CHR ''.'' garmentId of
              [characterId, typeIndex] \<Rightarrow>
                (case js_parseInt typeIndex of
                   None \<Rightarrow> Inl (InvalidGarmentTypeIndex typeIndex)
                 | Some n \<Rightarrow>
                     if n < 0 \<or> int (length garmentTypes) \<le> n
                     then Inl (InvalidGarmentTypeIndex typeIndex)
                     else (let garmentType = garmentTypes ! nat n
                           in case getZonesForGarment garmentType e of
                                Inl err \<Rightarrow> Inl err
                              | Inr zs \<Rightarrow>
                                  Inr \<lparr>g_id = garmentId, g_characterId = characterId,
                                       g_type = garmentType, g_zones = zs\<rparr>))
            | _ \<Rightarrow> Inl (InvalidGarmentFormat garmentId)))"

subsection \<open>Validation\<close>

definition validateSwap ::
  "body_map option \<Rightarrow> body_map option \<Rightarrow> zone list \<Rightarrow> engine \<Rightarrow> validation \<times> engine" where
  "validateSwap sourceBodyMap targetBodyMap zones e =
     (case bodyMapValidator e of
        None \<Rightarrow> (\<lparr>v_valid = True, v_errors = []\<rparr>, e)
      | Some validator \<Rightarrow>
          (case validator sourceBodyMap targetBodyMap zones of
             None \<Rightarrow> (\<lparr>v_valid = False, v_errors = [''Validation failed'']\<rparr>,
                       handleError ''validateSwap'' ValidatorFailure False e)
           | Some v \<Rightarrow> (v, e)))"

text \<open>
  The validation step of \<open>performSwap\<close>: it runs when both validation settings are on; an
  invalid swap is counted, and it is thrown when partial transformations are not allowed.
\<close>

definition checkValidation ::
  "body_map option \<Rightarrow> body_map option \<Rightarrow> zone list \<Rightarrow> engine \<Rightarrow> (swap_error + unit) \<times> engine" where
  "checkValidation sourceBodyMap targetBodyMap zones e =
     (if autoValidation e \<and> validateTransformations e
      then (case validateSwap sourceBodyMap targetBodyMap zones e of
              (v, e1) \<Rightarrow>
                if \<not> v_valid v
                then (let e2 = e1\<lparr>validationErrors := validationErrors e1 + 1\<rparr>
                      in if \<not> allowPartialTransformations e2
                         then (Inl (ValidationFailed (v_errors v)), e2)
                         else (Inr (), e2))
                else (Inr (), e1))
      else (Inr (), e))"

subsection \<open>Exchanging zones\<close>

text \<open>
  \<open>cloneBodyMapZones\<close>: the loop over the zones with the object \<open>cloned\<close> built so far, given
  by its own properties. A zone that reads truthy is cloned through JSON, which throws for
  a function. The assignment \<open>cloned[zone] = ...\<close> makes a property of \<open>cloned\<close>, except at
  \<open>__proto__\<close>, where it sets the prototype of \<open>cloned\<close> or does nothing.
\<close>

fun cloneLoop :: "body_map option \<Rightarrow> zone list \<Rightarrow> body_map \<Rightarrow> swap_error + body_map" where
  "cloneLoop bodyMap [] cloned = Inr cloned"
| "cloneLoop bodyMap (zone # zones) cloned =
     (case bodyMap of
        None \<Rightarrow> cloneLoop bodyMap zones cloned
      | Some m \<Rightarrow>
          (case m zone of
             None \<Rightarrow> cloneLoop bodyMap zones cloned
           | Some v \<Rightarrow>
               if truthy v
               then (case jsonClone v of
                       None \<Rightarrow> Inl JsonSyntaxError
                     | Some c \<Rightarrow>
                         cloneLoop bodyMap zones
                           (if zone = ''__proto__'' then cloned else cloned(zone \<mapsto> c)))
               else cloneLoop bodyMap zones cloned))"

definition cloneBodyMapZones :: "body_map option \<Rightarrow> zone list \<Rightarrow> swap_error + body_map" where
  "cloneBodyMapZones bodyMap zones = cloneLoop bodyMap zones Map.empty"

definition zoneFailure :: "zone \<Rightarrow> swap_error \<Rightarrow> zone_result" where
  "zoneFailure zone err =
     \<lparr>zr_zone = zone, zr_success = False, zr_sourceData = None, zr_targetData = None,
      zr_error = Some err\<rparr>"

text \<open>
  \<open>applyZoneSwap\<close>: both body maps are loaded, the zone is exchanged and both maps are saved,
  the source first. Every error is caught here and turned into a failed zone result.
\<close>

definition applyZoneSwap ::
  "char_id \<Rightarrow> char_id \<Rightarrow> zone \<Rightarrow> engine \<Rightarrow> zone_result \<times> engine" where
  "applyZoneSwap sourceCharId targetCharId zone e =
     (case loadCharacterBodyMap sourceCharId e of
        (Inl err, e1) \<Rightarrow> (zoneFailure zone err, handleError ''applyZoneSwap'' err False e1)
      | (Inr sourceBodyMap, e1) \<Rightarrow>
          (case loadCharacterBodyMap targetCharId e1 of
             (Inl err, e2) \<Rightarrow> (zoneFailure zone err, handleError ''applyZoneSwap'' err False e2)
           | (Inr targetBodyMap, e2) \<Rightarrow>
               (case (sourceBodyMap, targetBodyMap) of
                  (Some sm, Some tm) \<Rightarrow>
                    (let sourceZoneData = sm zone; targetZoneData = tm zone
                     in case saveCharacterBodyMap sourceCharId (sm(zone := targetZoneData)) e2 of
                          (Inl err, e3) \<Rightarrow>
                            (zoneFailure zone err, handleError ''applyZoneSwap'' err False e3)
                        | (Inr _, e3) \<Rightarrow>
                            (case saveCharacterBodyMap targetCharId
                                    (tm(zone := sourceZoneData)) e3 of
                               (Inl err, e4) \<Rightarrow>
                                 (zoneFailure zone err,
                                  handleError ''applyZoneSwap'' err False e4)
                             | (Inr _, e4) \<Rightarrow>
                                 (\<lparr>zr_zone = zone, zr_success = True,
                                   zr_sourceData = sourceZoneData,
                                   zr_targetData = targetZoneData, zr_error = None\<rparr>, e4)))
                | _ \<Rightarrow>
                    (zoneFailure zone MissingBodyMap,
                     handleError ''applyZoneSwap'' MissingBodyMap False e2))))"

text \<open>The loop of \<open>executeSwap\<close> over the zones, in the order given.\<close>

fun applyZoneSwaps ::
  "char_id \<Rightarrow> char_id \<Rightarrow> zone list \<Rightarrow> engine \<Rightarrow> zone_result list \<times> engine" where
  "applyZoneSwaps sourceCharId targetCharId [] e = ([], e)"
| "applyZoneSwaps sourceCharId targetCharId (zone # zones) e =
     (case applyZoneSwap sourceCharId targetCharId zone e of
        (r, e1) \<Rightarrow>
          (case applyZoneSwaps sourceCharId targetCharId zones e1 of
             (rs, e2) \<Rightarrow> (r # rs, e2)))"

definition addToHistory :: "swap_data \<Rightarrow> engine \<Rightarrow> engine" where
  "addToHistory swapData e =
     (let h = swapData # swapHistory e
      in e\<lparr>swapHistory := (if historyLimit e < int (length h)
                           then js_slice 0 (historyLimit e) h else h)\<rparr>)"

fun replaceFirst :: "('a \<Rightarrow> bool) \<Rightarrow> 'a \<Rightarrow> 'a list \<Rightarrow> 'a list" where
  "replaceFirst P y [] = []"
| "replaceFirst P y (x # xs) = (if P x then y # xs else x # replaceFirst P y xs)"

definition updateHistoryEntry :: "swap_id \<Rightarrow> swap_data \<Rightarrow> engine \<Rightarrow> engine" where
  "updateHistoryEntry swapId updatedData e =
     e\<lparr>swapHistory := replaceFirst (\<lambda>entry. sd_id entry = swapId) updatedData (swapHistory e)\<rparr>"

text \<open>
  The part of \<open>executeSwap\<close> inside its \<open>try\<close>: the body maps are loaded and the zones to
  swap are cloned from them, which can throw, the zones are exchanged, the reciprocal
  handler runs when there is one, and the swap is put into the active set and the history.
\<close>

definition executeSwapTry ::
  "swap_data \<Rightarrow> engine \<Rightarrow> (swap_error + swap_result) \<times> engine" where
  "executeSwapTry swapData e =
     (case loadCharacterBodyMap (sd_sourceCharId swapData) e of
        (Inl err, e1) \<Rightarrow> (Inl err, e1)
      | (Inr sourceBodyMap, e1) \<Rightarrow>
          (case loadCharacterBodyMap (sd_targetCharId swapData) e1 of
             (Inl err, e2) \<Rightarrow> (Inl err, e2)
           | (Inr targetBodyMap, e2) \<Rightarrow>
               (case cloneBodyMapZones sourceBodyMap (sd_zones swapData) of
                  Inl err \<Rightarrow> (Inl err, e2)
                | Inr originalSource \<Rightarrow>
                    (case cloneBodyMapZones targetBodyMap (sd_zones swapData) of
                       Inl err \<Rightarrow> (Inl err, e2)
                     | Inr originalTarget \<Rightarrow>
                         (let swapData1 = swapData\<lparr>sd_originalStates :=
                                Some (originalSource, originalTarget)\<rparr>
                          in case applyZoneSwaps (sd_sourceCharId swapData)
                                    (sd_targetCharId swapData) (sd_zones swapData) e2 of
                               (swapResults, e3) \<Rightarrow>
                                 if sd_reciprocal swapData1
                                    \<and> (case reciprocalSwapHandler e3 of
                                          None \<Rightarrow> False
                                        | Some handler \<Rightarrow> \<not> handler swapData1)
                                 then (Inl ReciprocalFailure, e3)
                                 else (let e4 = e3\<lparr>activeSwaps :=
                                             AList.update (sd_id swapData1) swapData1
                                               (activeSwaps e3)\<rparr>;
                                           e5 = addToHistory swapData1 e4
                                       in (Inr \<lparr>sr_success = True,
                                                sr_swapId = sd_id swapData1,
                                                sr_zones = Some (sd_zones swapData1),
                                                sr_results = swapResults, sr_error = None,
                                                sr_timestamp = sd_timestamp swapData1\<rparr>,
                                           e5)))))))"

definition executeSwap ::
  "char_id \<Rightarrow> char_id \<Rightarrow> zone list \<Rightarrow> garment \<Rightarrow> engine \<Rightarrow> swap_result \<times> engine" where
  "executeSwap sourceCharId targetCharId zones garm e =
     (let e0 = e\<lparr>swapCounter := swapCounter e + 1\<rparr>;
          swapId = (clock e0, swapCounter e0);
          swapData = \<lparr>sd_id = swapId, sd_sourceCharId = sourceCharId,
                      sd_targetCharId = targetCharId, sd_zones = zones, sd_garment = garm,
                      sd_timestamp = clock e0, sd_status = Active,
                      sd_reciprocal = (reciprocalTransformations e0 \<and> bidirectionalSwaps e0),
                      sd_originalStates = None, sd_reversedAt = None\<rparr>
      in case executeSwapTry swapData e0 of
           (Inr r, e1) \<Rightarrow> (r, e1)
         | (Inl err, e1) \<Rightarrow>
             (\<lparr>sr_success = False, sr_swapId = swapId, sr_zones = None, sr_results = [],
               sr_error = Some err, sr_timestamp = clock e0\<rparr>,
              handleError ''executeSwap'' err False (e1\<lparr>failedSwaps := failedSwaps e1 + 1\<rparr>)))"

subsection \<open>performSwap\<close>

text \<open>
  The body that \<open>performSwap\<close> hands to \<open>safeOperation\<close>. \<open>getGarmentById\<close> returns an object
  or throws, so the test \<open>!garment\<close> with its error "Garment not found" is never taken and
  has no branch here. The zones of the swap come from a second call of
  \<open>getZonesForGarment\<close>; the zone mapper is a function of the garment type, so this call
  gives the zones already stored in the garment.
\<close>

definition performSwapOperation ::
  "char_id \<Rightarrow> char_id \<Rightarrow> string \<Rightarrow> engine \<Rightarrow> (swap_error + swap_result) \<times> engine" where
  "performSwapOperation sourceCharId targetCharId garmentId e =
     (let e0 = e\<lparr>totalSwaps := totalSwaps e + 1\<rparr>
      in if sourceCharId = [] \<or> targetCharId = [] \<or> garmentId = []
         then (Inl MissingParameters, e0)
         else if sourceCharId = targetCharId then (Inl SameCharacter, e0)
         else (case getGarmentById garmentId e0 of
                 Inl err \<Rightarrow> (Inl err, e0)
               | Inr garm \<Rightarrow>
                   (case getZonesForGarment (g_type garm) e0 of
                      Inl err \<Rightarrow> (Inl err, e0)
                    | Inr zones \<Rightarrow>
                        if zones = [] then (Inl (NoZonesFound (g_type garm)), e0)
                        else (case loadCharacterBodyMap sourceCharId e0 of
                                (Inl err, e1) \<Rightarrow> (Inl err, e1)
                              | (Inr sourceBodyMap, e1) \<Rightarrow>
                                  (case loadCharacterBodyMap targetCharId e1 of
                                     (Inl err, e2) \<Rightarrow> (Inl err, e2)
                                   | (Inr targetBodyMap, e2) \<Rightarrow>
                                       (case checkValidation sourceBodyMap targetBodyMap
                                               zones e2 of
                                          (Inl err, e3) \<Rightarrow> (Inl err, e3)
                                        | (Inr _, e3) \<Rightarrow>
                                            (case executeSwap sourceCharId targetCharId
                                                    zones garm e3 of
                                               (swapResult, e4) \<Rightarrow>
                                                 (Inr swapResult,
                                                  e4\<lparr>successfulSwaps :=
                                                       successfulSwaps e4 + 1\<rparr>))))))))"

text \<open>
  \<open>performSwap\<close>: \<open>Inl\<close> is an error thrown to the caller, \<open>Inr None\<close> the null that
  \<open>safeOperation\<close> returns for an error thrown inside it, \<open>Inr (Some r)\<close> a swap result.
\<close>

definition performSwap ::
  "char_id \<Rightarrow> char_id \<Rightarrow> string \<Rightarrow> engine \<Rightarrow> (swap_error + swap_result option) \<times> engine" where
  "performSwap sourceCharId targetCharId garmentId e =
     (if \<not> isReady e then (Inl EngineNotReady, e)
      else (case safeOperation ''performSwap''
                   (performSwapOperation sourceCharId targetCharId garmentId) e of
              (r, e1) \<Rightarrow> (Inr r, e1)))"

subsection \<open>reverseSwap\<close>

text \<open>
  The object spread of a body map that may be null, overwritten by the properties of a
  snapshot. A name that neither has as a property reads after the spread as it did on the
  body map.
\<close>

definition restoreZones :: "body_map option \<Rightarrow> body_map \<Rightarrow> body_map" where
  "restoreZones bodyMap snapshot =
     (case bodyMap of None \<Rightarrow> Map.empty | Some m \<Rightarrow> m) ++ snapshot"

definition reverseSwapTry ::
  "swap_id \<Rightarrow> swap_data \<Rightarrow> body_map \<Rightarrow> body_map \<Rightarrow> engine
     \<Rightarrow> (swap_error + reverse_result) \<times> engine" where
  "reverseSwapTry swapId swapData originalSource originalTarget e =
     (case loadCharacterBodyMap (sd_sourceCharId swapData) e of
        (Inl err, e1) \<Rightarrow> (Inl err, e1)
      | (Inr sourceBodyMap, e1) \<Rightarrow>
          (case loadCharacterBodyMap (sd_targetCharId swapData) e1 of
             (Inl err, e2) \<Rightarrow> (Inl err, e2)
           | (Inr targetBodyMap, e2) \<Rightarrow>
               (case saveCharacterBodyMap (sd_sourceCharId swapData)
                       (restoreZones sourceBodyMap originalSource) e2 of
                  (Inl err, e3) \<Rightarrow> (Inl err, e3)
                | (Inr _, e3) \<Rightarrow>
                    (case saveCharacterBodyMap (sd_targetCharId swapData)
                            (restoreZones targetBodyMap originalTarget) e3 of
                       (Inl err, e4) \<Rightarrow> (Inl err, e4)
                     | (Inr _, e4) \<Rightarrow>
                         (let swapData1 = swapData\<lparr>sd_status := Reversed,
                                                   sd_reversedAt := Some (clock e4)\<rparr>;
                              e5 = e4\<lparr>activeSwaps := AList.delete swapId (activeSwaps e4)\<rparr>;
                              e6 = updateHistoryEntry swapId swapData1 e5;
                              e7 = e6\<lparr>reversedSwaps := reversedSwaps e6 + 1\<rparr>
                          in (Inr \<lparr>rr_success = True, rr_swapId = swapId,
                                   rr_reversedAt = Some (clock e4), rr_error = None\<rparr>,
                              e7))))))"

definition reverseSwapOperation ::
  "swap_id \<Rightarrow> engine \<Rightarrow> (swap_error + reverse_result) \<times> engine" where
  "reverseSwapOperation swapId e =
     (case map_of (activeSwaps e) swapId of
        None \<Rightarrow> (Inl (ActiveSwapNotFound swapId), e)
      | Some swapData \<Rightarrow>
          if sd_status swapData \<noteq> Active
          then (Inl (SwapNotActive swapId (sd_status swapData)), e)
          else (case sd_originalStates swapData of
                  None \<Rightarrow> (Inl (NoOriginalStates swapId), e)
                | Some (originalSource, originalTarget) \<Rightarrow>
                    (case reverseSwapTry swapId swapData originalSource originalTarget e of
                       (Inr r, e1) \<Rightarrow> (Inr r, e1)
                     | (Inl err, e1) \<Rightarrow>
                         (Inr \<lparr>rr_success = False, rr_swapId = swapId, rr_reversedAt = None,
                               rr_error = Some err\<rparr>,
                          handleError ''reverseSwap'' err False e1))))"

definition reverseSwap ::
  "swap_id \<Rightarrow> engine \<Rightarrow> (swap_error + reverse_result option) \<times> engine" where
  "reverseSwap swapId e =
     (if \<not> isReady e then (Inl EngineNotReady, e)
      else (case safeOperation ''reverseSwap'' (reverseSwapOperation swapId) e of
              (r, e1) \<Rightarrow> (Inr r, e1)))"

subsection \<open>Cleanup\<close>

text \<open>
  \<open>performCleanup\<close>: history entries older than 24 hours are dropped, and failed swaps are
  taken out of the active set.
\<close>

definition performCleanup :: "engine \<Rightarrow> engine" where
  "performCleanup e =
     e\<lparr>swapHistory :=
         filter (\<lambda>entry. int (clock e) - 24 * 60 * 60 * 1000 < int (sd_timestamp entry))
           (swapHistory e),
       activeSwaps := filter (\<lambda>p. sd_status (snd p) \<noteq> Failed) (activeSwaps e)\<rparr>"

subsection \<open>Notions used to state the properties\<close>

text \<open>
  The exchange of one zone between two body maps, and of a list of zones in order: what
  the zone loop does to the two body maps when no storage call fails.
\<close>

definition swap_zone :: "zone \<Rightarrow> body_map \<times> body_map \<Rightarrow> body_map \<times> body_map" where
  "swap_zone z p = ((fst p)(z := snd p z), (snd p)(z := fst p z))"

definition swap_zones :: "zone list \<Rightarrow> body_map \<times> body_map \<Rightarrow> body_map \<times> body_map" where
  "swap_zones zs p = fold swap_zone zs p"

text \<open>The value of a zone of a character in the store.\<close>

definition zone_of :: "engine \<Rightarrow> char_id \<Rightarrow> zone \<Rightarrow> zone_data option" where
  "zone_of e c z = (case bodyMaps e c of None \<Rightarrow> None | Some m \<Rightarrow> m z)"

text \<open>
  Two engine states agree on everything that the storage calls and the error log do not
  touch.
\<close>

definition same_control :: "engine \<Rightarrow> engine \<Rightarrow> bool" where
  "same_control e e' =
     (initialized e' = initialized e \<and> enabled e' = enabled e
      \<and> activeSwaps e' = activeSwaps e \<and> swapHistory e' = swapHistory e
      \<and> swapCounter e' = swapCounter e \<and> clock e' = clock e
      \<and> historyLimit e' = historyLimit e
      \<and> reciprocalSwapHandler e' = reciprocalSwapHandler e
      \<and> reciprocalTransformations e' = reciprocalTransformations e
      \<and> bidirectionalSwaps e' = bidirectionalSwaps e)"

definition active_set_ok :: "engine \<Rightarrow> bool" where
  "active_set_ok e = list_all (\<lambda>p. sd_status (snd p) = Active) (activeSwaps e)"

text \<open>
  The states of the engine that can be reached: from an empty active set (as
  \<open>initializeSwapTracking\<close> leaves it) by the three operations, where between two operations
  everything but the active set may change (the store, the fault schedule, the settings,
  the collaborators, the clock).
\<close>

inductive reachable :: "engine \<Rightarrow> bool" where
  init: "activeSwaps e = [] \<Longrightarrow> reachable e"
| perform: "reachable e \<Longrightarrow> reachable (snd (performSwap a b g e))"
| reverse: "reachable e \<Longrightarrow> reachable (snd (reverseSwap sid e))"
| cleanup: "reachable e \<Longrightarrow> reachable (performCleanup e)"
| environment: "reachable e \<Longrightarrow> activeSwaps e' = activeSwaps e \<Longrightarrow> reachable e'"

section \<open>Concrete states used by the examples\<close>

definition entry_of :: "string \<Rightarrow> nat \<Rightarrow> history_entry" where
  "entry_of name t =
     \<lparr>he_id = name, he_type = ''swap'', he_description = [],
      he_timestamp = TimeValid t, he_data = DataObject ''{}''\<rparr>"

definition tracker_of :: "history_entry list \<Rightarrow> int \<Rightarrow> int \<Rightarrow> history_tracker" where
  "tracker_of h i m =
     \<lparr>history = h, currentIndex = i, maxHistorySize = m, isRecording = True,
      isDirty = False, totalEntries = int (length h), undoOperations = 0, redoOperations = 0,
      cleanupOperations = 0, storageOperations = 0, tracker_errors = []\<rparr>"

text \<open>
  A handler with a memory budget of 1 MB. The character p (200 bytes) is cached and
  becomes active, the character n (1500000 bytes, more than the budget) is cached while p
  is pinned, and then a character z becomes active for which no state could be loaded.
\<close>

definition handler_init :: character_handler where
  "handler_init =
     \<lparr>activeCharacterId = None, characterCache = [], characterStates = [],
      lastAccessTimes = [], maxCachedCharacters = 50, maxMemoryMB = 1, memoryThresholdMB = 80,
      memoryUsageBytes = 0, autoSaveEnabled = True, evictions = 0, cachedCharacters = 0,
      memoryPressureEvents = 0, saveRequests = []\<rparr>"

definition state_of :: "string \<Rightarrow> nat \<Rightarrow> character_state" where
  "state_of name len = \<lparr>cs_displayName = name, cs_jsonLength = len\<rparr>"

definition handler_pinned_p :: character_handler where
  "handler_pinned_p =
     snd (cacheCharacter ''n'' (state_of ''n'' 750000) 2
       (activateCharacter ''p'' 1
         (snd (cacheCharacter ''p'' (state_of ''p'' 100) 1 handler_init))))"

definition handler_ghost_active :: character_handler where
  "handler_ghost_active = activateCharacter ''z'' 3 handler_pinned_p"

lemmas cache_example_defs =
  handler_ghost_active_def handler_pinned_p_def handler_init_def state_of_def
  activateCharacter_def cacheCharacter_def evictCharacters_def evictionCandidates_def
  evictOne_def calculateStateSize_def memoryBudgetBytes_def Let_def

text \<open>
  An engine that is ready, with the default settings, a zone mapper that follows the table
  of the engine, a validator that accepts every swap and no reciprocal handler, over a
  given store and fault schedule. The characters c1 and c2 of the scenarios have plain
  objects as body maps.
\<close>

definition valid_result :: validation where
  "valid_result = \<lparr>v_valid = True, v_errors = []\<rparr>"

definition engine_with :: "(char_id \<Rightarrow> body_map option) \<Rightarrow> bool list \<Rightarrow> engine" where
  "engine_with store fs =
     \<lparr>initialized = True, enabled = True, activeSwaps = [], swapHistory = [], swapCounter = 0,
      autoValidation = True, validateTransformations = True, allowPartialTransformations = True,
      reciprocalTransformations = True, bidirectionalSwaps = True, historyLimit = 100,
      totalSwaps = 0, successfulSwaps = 0, failedSwaps = 0, reversedSwaps = 0,
      validationErrors = 0, engine_errors = [],
      garmentZoneMapper = Some (\<lambda>t. Some (zoneMapping t)),
      bodyMapValidator = Some (\<lambda>s t zs. Some valid_result),
      reciprocalSwapHandler = None, bodyMaps = store, faults = fs, clock = 1000\<rparr>"

definition body_c1 :: body_map where
  "body_c1 = plainObject [(''chest'', ZStr ''flat''), (''waist'', ZStr ''slim'')]"

definition body_c2 :: body_map where
  "body_c2 = plainObject [(''chest'', ZStr ''large''), (''waist'', ZStr ''wide'')]"

definition store12 :: "char_id \<Rightarrow> body_map option" where
  "store12 = (\<lambda>c. None)(''c1'' \<mapsto> body_c1, ''c2'' \<mapsto> body_c2)"

text \<open>The same store, but c1 has no chest zone.\<close>

definition store_missing_zone :: "char_id \<Rightarrow> body_map option" where
  "store_missing_zone =
     (\<lambda>c. None)(''c1'' \<mapsto> plainObject [(''waist'', ZStr ''slim'')], ''c2'' \<mapsto> body_c2)"

text \<open>An engine whose zone mapper gives the zone chest twice.\<close>

definition dup_engine :: engine where
  "dup_engine = (engine_with store12 [])
     \<lparr>garmentZoneMapper := Some (\<lambda>t. Some [''chest'', ''chest''])\<rparr>"

text \<open>An engine with the strict policy and a validator that rejects every swap.\<close>

definition strict_engine :: engine where
  "strict_engine = (engine_with store12 [])
     \<lparr>allowPartialTransformations := False,
      bodyMapValidator :=
        Some (\<lambda>s t zs. Some \<lparr>v_valid = False, v_errors = [''zone mismatch'']\<rparr>)\<rparr>"

definition shirt :: garment where
  "shirt = \<lparr>g_id = ''c1.3'', g_characterId = ''c1'', g_type = ''shirt'',
            g_zones = [''chest'', ''waist'']\<rparr>"

lemmas engine_example_defs =
  zone_of_def engine_with_def store12_def store_missing_zone_def body_c1_def body_c2_def
  dup_engine_def strict_engine_def shirt_def valid_result_def
  performSwap_def safeOperation_def performSwapOperation_def isReady_def getGarmentById_def
  getZonesForGarment_def js_parseInt_def js_whitespace_def is_digit_def digits_value_def
  garmentTypes_def zoneMapping_def loadCharacterBodyMap_def saveCharacterBodyMap_def
  storageCall_def checkValidation_def validateSwap_def executeSwap_def executeSwapTry_def
  applyZoneSwap_def cloneBodyMapZones_def truthy_def jsonClone_def plainObject_def
  inherited_def objectPrototypeMethods_def addToHistory_def handleError_def
  zoneFailure_def Let_def reverseSwap_def reverseSwapOperation_def reverseSwapTry_def
  restoreZones_def updateHistoryEntry_def

section \<open>Properties of the history tracker\<close>

lemma enforceHistoryLimit_keeps_capacity:
  "maxHistorySize (enforceHistoryLimit s) = maxHistorySize s"
  by (auto simp: enforceHistoryLimit_def Let_def)

lemma enforceHistoryLimit_in_range:
  "1 \<le> maxHistorySize s \<Longrightarrow> index_in_range s \<Longrightarrow> index_in_range (enforceHistoryLimit s)"
  by (auto simp: enforceHistoryLimit_def index_in_range_def js_slice_from_def
      js_rel_index_def Let_def)

lemma addEntryToHistory_in_range:
  "1 \<le> maxHistorySize s \<Longrightarrow> index_in_range (addEntryToHistory e s)"
  by (auto simp: addEntryToHistory_def enforceHistoryLimit_def index_in_range_def
      js_slice_from_def js_rel_index_def Let_def)

lemma recordTransformation_in_range:
  "1 \<le> maxHistorySize s \<Longrightarrow> index_in_range s
    \<Longrightarrow> index_in_range (snd (recordTransformation eid now ty dat descr s))"
  using addEntryToHistory_in_range
  by (auto simp: recordTransformation_def Let_def index_in_range_def)

text \<open>
  A call of \<open>undo\<close> or \<open>redo\<close> that resumes before another call starts keeps the index in
  range. Two calls of \<open>undo\<close> that overlap do not: both pass the test at index 0, and each
  lowers the index when it resumes.
\<close>

lemma undo_in_range: "index_in_range s \<Longrightarrow> index_in_range (snd (undo s))"
  by (auto simp: undo_def undoBegin_def undoResume_def canUndo_def executeUndo_def
      index_in_range_def entry_at_def Let_def split: sum.splits option.splits if_splits)

lemma redo_in_range: "index_in_range s \<Longrightarrow> index_in_range (snd (redo s))"
  by (auto simp: redo_def redoBegin_def redoResume_def canRedo_def executeRedo_def
      index_in_range_def entry_at_def Let_def split: sum.splits option.splits if_splits)

lemma undo_overlapping_example:
  "undoBegin (tracker_of [entry_of ''A'' 1] 0 50) = Inr (Some (entry_of ''A'' 1))
   \<and> currentIndex (snd (undoResume (Some (entry_of ''A'' 1))
        (snd (undoResume (Some (entry_of ''A'' 1)) (tracker_of [entry_of ''A'' 1] 0 50)))))
     = - 2"
  by (simp add: tracker_of_def undoBegin_def undoResume_def canUndo_def executeUndo_def
      entry_at_def)

lemma loadHistoryFromStorage_in_range:
  "index_in_range s \<Longrightarrow> index_in_range (loadHistoryFromStorage stored s)"
  by (auto simp: loadHistoryFromStorage_def index_in_range_def split: option.splits)

lemma saveToStorage_in_range: "index_in_range (saveToStorage ok s) = index_in_range s"
  by (auto simp: saveToStorage_def index_in_range_def)

lemma clearHistory_in_range: "clearHistory c ok s = Inr (b, s') \<Longrightarrow> index_in_range s'"
  by (auto simp: clearHistory_def saveToStorage_in_range split: if_splits)
     (simp add: index_in_range_def)

lemma importHistory_in_range:
  "1 \<le> maxHistorySize s \<Longrightarrow> index_in_range s
    \<Longrightarrow> index_in_range (snd (importHistory imp m ok s))"
  by (auto simp: importHistory_def Let_def saveToStorage_in_range
      intro!: enforceHistoryLimit_in_range)
     (auto simp: index_in_range_def)

lemma cleanupOrphanedReferences_in_range:
  "index_in_range s \<Longrightarrow> index_in_range (cleanupOrphanedReferences s)"
  by (auto simp: cleanupOrphanedReferences_def index_in_range_def Let_def)

lemma tracker_performCleanup_in_range:
  "1 \<le> maxHistorySize s \<Longrightarrow> index_in_range s \<Longrightarrow> index_in_range (tracker_performCleanup s)"
  using cleanupOrphanedReferences_in_range [OF enforceHistoryLimit_in_range, of s]
  by (auto simp: tracker_performCleanup_def Let_def index_in_range_def)

lemma onConfigChanged_in_range:
  "1 \<le> v \<Longrightarrow> index_in_range s \<Longrightarrow> index_in_range (onConfigChanged k v s)"
  by (auto simp: onConfigChanged_def intro!: enforceHistoryLimit_in_range)
     (auto simp: index_in_range_def)

text \<open>
  C7. When the current index, which is at least -1, is not at the tail of the log,
  recording an entry drops the entries after the current index, appends the new entry and
  leaves the index at the new tail: the new entry is the last one of the log and the index
  is at it. This holds for
  every capacity of at least 1, the values that \<open>loadConfigurationSettings\<close> admits. The
  trimming that follows in \<open>addEntryToHistory\<close> removes the oldest entries of a log that
  has grown past its capacity; when the capacity holds the entries up to the current index
  and the new one, as in the scenario of the specification, nothing is trimmed and the log
  is exactly the entries up to the current index followed by the new entry.
\<close>

theorem addEntryToHistory_truncates_branch:
  assumes "- 1 \<le> currentIndex s"
    and "currentIndex s < int (length (history s)) - 1"
    and "1 \<le> maxHistorySize s"
  shows "history (addEntryToHistory e s)
           = drop (nat (currentIndex s + 2) - nat (maxHistorySize s))
               (take (nat (currentIndex s + 1)) (history s) @ [e])
       \<and> history (addEntryToHistory e s) \<noteq> []
       \<and> last (history (addEntryToHistory e s)) = e
       \<and> currentIndex (addEntryToHistory e s)
           = int (length (history (addEntryToHistory e s))) - 1
       \<and> (currentIndex s + 2 \<le> maxHistorySize s \<longrightarrow>
            history (addEntryToHistory e s)
              = take (nat (currentIndex s + 1)) (history s) @ [e])"
proof -
  let ?h = "take (nat (currentIndex s + 1)) (history s) @ [e]"
  let ?k = "nat (currentIndex s + 2) - nat (maxHistorySize s)"
  let ?s1 = "s\<lparr>history := ?h, currentIndex := currentIndex s + 1,
               totalEntries := totalEntries s + 1\<rparr>"
  have n: "nat (currentIndex s + 1) \<le> length (history s)" using assms(1,2) by linarith
  have len: "length ?h = nat (currentIndex s + 2)"
    using assms(1) n by (simp add: min_def)
  have sl: "js_slice 0 (currentIndex s + 1) (history s) = take (nat (currentIndex s + 1)) (history s)"
    using assms(1) n by (simp add: js_slice_def js_rel_index_def Let_def min_def)
  have i1: "int (length ?h) - 1 = currentIndex s + 1"
    unfolding len using assms(1) by linarith
  have ae: "addEntryToHistory e s = (enforceHistoryLimit ?s1)\<lparr>isDirty := True\<rparr>"
    unfolding addEntryToHistory_def Let_def sl i1 using assms(1,2) by (simp add: add.commute)
  have k: "?k < length ?h" unfolding len using assms(1,3) by linarith
  have "last (drop ?k ?h) = last ?h" using k by (rule last_drop)
  then have la: "last (drop ?k ?h) = e" by simp
  have ne: "drop ?k ?h \<noteq> []" using k by (simp only: drop_eq_Nil not_le)
  show ?thesis
  proof (cases "maxHistorySize s < int (length ?h)")
    case True
    let ?x = "int (length ?h) - maxHistorySize s"
    have x: "nat ?x = ?k" "0 < ?x" unfolding len using True assms(1,3) len by linarith+
    have ri: "js_rel_index ?x (length ?h) = ?k"
      using x k by (simp only: js_rel_index_def) (simp del: length_append)
    have en: "enforceHistoryLimit ?s1
        = ?s1\<lparr>history := drop ?k ?h, currentIndex := max 0 (currentIndex s + 1 - ?x)\<rparr>"
      using True by (simp add: enforceHistoryLimit_def Let_def js_slice_from_def ri
          del: length_append)
    have h: "history (addEntryToHistory e s) = drop ?k ?h" by (simp add: ae en)
    have c: "currentIndex (addEntryToHistory e s) = max 0 (currentIndex s + 1 - ?x)"
      by (simp add: ae en)
    have l: "int (length (drop ?k ?h)) - 1 = max 0 (currentIndex s + 1 - ?x)"
      unfolding length_drop len using True assms(1,3) len by linarith
    have nex: "\<not> currentIndex s + 2 \<le> maxHistorySize s" using True len assms(1) by linarith
    have ne': "history (addEntryToHistory e s) \<noteq> []" unfolding h by (rule ne)
    have la': "last (history (addEntryToHistory e s)) = e" unfolding h by (rule la)
    have idx: "currentIndex (addEntryToHistory e s)
                 = int (length (history (addEntryToHistory e s))) - 1"
      unfolding h c by (rule l [symmetric])
    have impl: "currentIndex s + 2 \<le> maxHistorySize s \<longrightarrow>
            history (addEntryToHistory e s) = ?h"
      using nex by blast
    show ?thesis by (intro conjI h ne' la' idx impl)
  next
    case False
    have en: "enforceHistoryLimit ?s1 = ?s1"
      using False by (simp add: enforceHistoryLimit_def del: length_append)
    have k0: "?k = 0" using False len assms(1) by linarith
    have h: "history (addEntryToHistory e s) = ?h" by (simp add: ae en)
    have c: "currentIndex (addEntryToHistory e s) = currentIndex s + 1" by (simp add: ae en)
    have h': "history (addEntryToHistory e s) = drop ?k ?h" unfolding h k0 by (rule drop_0 [symmetric])
    have ne': "history (addEntryToHistory e s) \<noteq> []" unfolding h' by (rule ne)
    have la': "last (history (addEntryToHistory e s)) = e" unfolding h' by (rule la)
    have idx: "currentIndex (addEntryToHistory e s)
                 = int (length (history (addEntryToHistory e s))) - 1"
      unfolding h c by (rule i1 [symmetric])
    have impl: "currentIndex s + 2 \<le> maxHistorySize s \<longrightarrow>
            history (addEntryToHistory e s) = ?h"
      using h by blast
    show ?thesis by (intro conjI h' ne' la' idx impl)
  qed
qed

text \<open>
  The scenario of the specification: the log is A, B, C with the index at B; recording D
  gives A, B, D with the index at D.
\<close>

theorem addEntryToHistory_truncates_branch_witness:
  "history (addEntryToHistory (entry_of ''D'' 4)
       (tracker_of [entry_of ''A'' 1, entry_of ''B'' 2, entry_of ''C'' 3] 1 50))
     = [entry_of ''A'' 1, entry_of ''B'' 2, entry_of ''D'' 4]
   \<and> last (history (addEntryToHistory (entry_of ''D'' 4)
       (tracker_of [entry_of ''A'' 1, entry_of ''B'' 2, entry_of ''C'' 3] 1 50)))
     = entry_of ''D'' 4
   \<and> currentIndex (addEntryToHistory (entry_of ''D'' 4)
       (tracker_of [entry_of ''A'' 1, entry_of ''B'' 2, entry_of ''C'' 3] 1 50)) = 2"
  using addEntryToHistory_truncates_branch
    [of "tracker_of [entry_of ''A'' 1, entry_of ''B'' 2, entry_of ''C'' 3] 1 50"
        "entry_of ''D'' 4"]
  by (simp add: tracker_of_def)

text \<open>
  A log longer than its capacity is met after \<open>loadHistoryFromStorage\<close>, which installs the
  stored log untrimmed. With the stored log A, B, C, a capacity of 2 and one undo, the index
  is at B; recording D drops C, appends D and trims A: the log is B, D with the index at D.
\<close>

lemma addEntryToHistory_over_capacity_example:
  "history (snd (undo (loadHistoryFromStorage
       (Some [entry_of ''A'' 1, entry_of ''B'' 2, entry_of ''C'' 3]) (tracker_of [] (- 1) 2))))
     = [entry_of ''A'' 1, entry_of ''B'' 2, entry_of ''C'' 3]
   \<and> currentIndex (snd (undo (loadHistoryFromStorage
       (Some [entry_of ''A'' 1, entry_of ''B'' 2, entry_of ''C'' 3]) (tracker_of [] (- 1) 2))))
     = 1
   \<and> history (addEntryToHistory (entry_of ''D'' 4) (snd (undo (loadHistoryFromStorage
       (Some [entry_of ''A'' 1, entry_of ''B'' 2, entry_of ''C'' 3]) (tracker_of [] (- 1) 2)))))
     = [entry_of ''B'' 2, entry_of ''D'' 4]
   \<and> currentIndex (addEntryToHistory (entry_of ''D'' 4) (snd (undo (loadHistoryFromStorage
       (Some [entry_of ''A'' 1, entry_of ''B'' 2, entry_of ''C'' 3]) (tracker_of [] (- 1) 2)))))
     = 1"
  by (simp add: tracker_of_def loadHistoryFromStorage_def undo_def undoBegin_def
      undoResume_def canUndo_def executeUndo_def entry_at_def addEntryToHistory_def
      enforceHistoryLimit_def js_slice_def js_slice_from_def js_rel_index_def Let_def)

text \<open>
  C8. The index is meant to stay between -1 and the last position of the log. Every
  operation that runs on its own keeps it there while the capacity is at least 1 (the
  lemmas above), but the listener of configuration changes stores a capacity of 0 unchecked: the trimming then
  empties the log and clamps the index to 0, which is past the end of the empty log.
\<close>

theorem onConfigChanged_zero_capacity_breaks_index_range:
  "index_in_range (tracker_of [entry_of ''A'' 1] 0 50)
   \<and> history (onConfigChanged ''performance.maxHistoryEntries'' 0
        (tracker_of [entry_of ''A'' 1] 0 50)) = []
   \<and> currentIndex (onConfigChanged ''performance.maxHistoryEntries'' 0
        (tracker_of [entry_of ''A'' 1] 0 50)) = 0
   \<and> \<not> index_in_range (onConfigChanged ''performance.maxHistoryEntries'' 0
        (tracker_of [entry_of ''A'' 1] 0 50))"
  by (simp add: tracker_of_def index_in_range_def onConfigChanged_def enforceHistoryLimit_def
      js_slice_from_def js_rel_index_def Let_def)

section \<open>Properties of the character cache\<close>

lemma collectEvictions_spec:
  "collectEvictions h r cs acc fr = (te, fr') \<Longrightarrow>
   \<exists>new. te = acc @ new \<and> fr' = fr + sum_list (map snd new)
     \<and> set (map fst new) \<subseteq> set cs
     \<and> (distinct cs \<longrightarrow> distinct (map fst new))
     \<and> ((r \<le> fr' \<and> int (length (characterCache h)) - int (length te) < maxCachedCharacters h)
        \<or> (\<forall>c \<in> set cs. c \<in> set (map fst (characterCache h)) \<longrightarrow> c \<in> set (map fst new)))"
proof (induction cs arbitrary: acc fr)
  case Nil
  then show ?case by simp
next
  case (Cons c cs)
  show ?case
  proof (cases "map_of (characterCache h) c")
    case None
    with Cons.prems have "collectEvictions h r cs acc fr = (te, fr')" by simp
    from Cons.IH[OF this] obtain new where n: "te = acc @ new" "fr' = fr + sum_list (map snd new)"
      "set (map fst new) \<subseteq> set cs" "distinct cs \<longrightarrow> distinct (map fst new)"
      "(r \<le> fr' \<and> int (length (characterCache h)) - int (length te) < maxCachedCharacters h)
        \<or> (\<forall>c \<in> set cs. c \<in> set (map fst (characterCache h)) \<longrightarrow> c \<in> set (map fst new))"
      by blast
    from None have "c \<notin> set (map fst (characterCache h))"
      by (simp add: map_of_eq_None_iff)
    with n show ?thesis by (intro exI[of _ new]) auto
  next
    case (Some st)
    let ?sz = "calculateStateSize st"
    show ?thesis
    proof (cases "r \<le> fr + ?sz \<and> int (length (characterCache h)) - int (length (acc @ [(c, ?sz)])) < maxCachedCharacters h")
      case True
      with Some Cons.prems have "te = acc @ [(c, ?sz)]" "fr' = fr + ?sz"
        by (auto simp: Let_def)
      with True show ?thesis by (intro exI[of _ "[(c, ?sz)]"]) auto
    next
      case False
      with Some Cons.prems have "collectEvictions h r cs (acc @ [(c, ?sz)]) (fr + ?sz) = (te, fr')"
        by (auto simp: Let_def)
      from Cons.IH[OF this] obtain new where n: "te = (acc @ [(c, ?sz)]) @ new"
        "fr' = (fr + ?sz) + sum_list (map snd new)"
        "set (map fst new) \<subseteq> set cs" "distinct cs \<longrightarrow> distinct (map fst new)"
        "(r \<le> fr' \<and> int (length (characterCache h)) - int (length te) < maxCachedCharacters h)
          \<or> (\<forall>c \<in> set cs. c \<in> set (map fst (characterCache h)) \<longrightarrow> c \<in> set (map fst new))"
        by blast
      then show ?thesis by (intro exI[of _ "(c, ?sz) # new"]) auto
    qed
  qed
qed

lemma collectEvictions_cached:
  "collectEvictions h r cs acc fr = (te, fr') \<Longrightarrow>
   set (map fst acc) \<subseteq> set (map fst (characterCache h)) \<Longrightarrow>
   set (map fst te) \<subseteq> set (map fst (characterCache h))"
proof (induction cs arbitrary: acc fr)
  case Nil
  then show ?case by simp
next
  case (Cons c cs)
  show ?case
  proof (cases "map_of (characterCache h) c")
    case None
    with Cons show ?thesis by simp
  next
    case (Some st)
    let ?acc = "acc @ [(c, calculateStateSize st)]"
    from Some have "c \<in> set (map fst (characterCache h))"
      by (metis map_of_eq_None_iff option.distinct(1) set_map)
    with Cons.prems(2) have acc: "set (map fst ?acc) \<subseteq> set (map fst (characterCache h))"
      by simp
    from Cons.prems(1) Some
    have "te = ?acc \<or> collectEvictions h r cs ?acc (fr + calculateStateSize st) = (te, fr')"
      by (auto simp: Let_def split: if_splits)
    then show ?thesis
    proof
      assume "te = ?acc"
      with acc show ?thesis by simp
    next
      assume "collectEvictions h r cs ?acc (fr + calculateStateSize st) = (te, fr')"
      from Cons.IH[OF this acc] show ?thesis .
    qed
  qed
qed

lemma fold_evictOne_cache:
  "characterCache (fold evictOne te h) = filter (\<lambda>p. fst p \<notin> set (map fst te)) (characterCache h)"
  by (induction te arbitrary: h) (auto simp: evictOne_def AList.delete_eq intro: filter_cong)

lemma fold_evictOne_memory:
  "memoryUsageBytes (fold evictOne te h) = memoryUsageBytes h - sum_list (map snd te)"
  by (induction te arbitrary: h) (auto simp: evictOne_def)

lemma fold_evictOne_active:
  "activeCharacterId (fold evictOne te h) = activeCharacterId h"
  by (induction te arbitrary: h) (auto simp: evictOne_def)

lemma length_filter_keys:
  assumes "distinct (map fst xs)" "distinct ks" "set ks \<subseteq> set (map fst xs)"
  shows "length (filter (\<lambda>p. fst p \<notin> set ks) xs) + length ks = length xs"
proof -
  have "map fst (filter (\<lambda>p. fst p \<in> set ks) xs) = filter (\<lambda>k. k \<in> set ks) (map fst xs)"
    by (simp add: filter_map comp_def)
  moreover have "distinct (filter (\<lambda>k. k \<in> set ks) (map fst xs))"
    using assms(1) by simp
  moreover have "set (filter (\<lambda>k. k \<in> set ks) (map fst xs)) = set ks"
    using assms(3) by auto
  ultimately have "length (filter (\<lambda>p. fst p \<in> set ks) xs) = card (set ks)"
    by (metis distinct_card length_map)
  then have "length (filter (\<lambda>p. fst p \<in> set ks) xs) = length ks"
    using assms(2) by (simp add: distinct_card)
  moreover have "length (filter (\<lambda>p. fst p \<in> set ks) xs) + length (filter (\<lambda>p. fst p \<notin> set ks) xs) = length xs"
    using sum_length_filter_compl[of "\<lambda>p. fst p \<in> set ks" xs] by simp
  ultimately show ?thesis by simp
qed

lemma map_of_filter_keys:
  "k \<notin> S \<Longrightarrow> map_of (filter (\<lambda>p. fst p \<notin> S) xs) k = map_of xs k"
  by (induction xs) auto

lemma evictionCandidates_set:
  "set (evictionCandidates h) = {c \<in> set (map fst (lastAccessTimes h)). Some c \<noteq> activeCharacterId h}"
  by (auto simp: evictionCandidates_def)

lemma evictionCandidates_distinct:
  "distinct (map fst (lastAccessTimes h)) \<Longrightarrow> distinct (evictionCandidates h)"
proof -
  assume d: "distinct (map fst (lastAccessTimes h))"
  let ?f = "filter (\<lambda>e. Some (fst e) \<noteq> activeCharacterId h) (lastAccessTimes h)"
  have "distinct (map fst ?f)" using d by (rule distinct_map_filter)
  moreover have "mset (map fst (sort_key snd ?f)) = mset (map fst ?f)"
    by simp
  ultimately show ?thesis
    unfolding evictionCandidates_def by (metis mset_eq_imp_distinct_iff)
qed

text \<open>
  C9, as the code has it. After an eviction pass the active character is still cached with
  its state, and either no character but the active one is left in the cache, or the
  cache holds fewer than \<open>maxCachedCharacters\<close> entries and the tracked usage has dropped by
  at least the bytes that were asked for. The pass never reads the memory budget: when the
  usage less the bytes asked for was within the budget before, then afterwards the usage is
  within the budget or no character but the active one is left.
\<close>

theorem evictCharacters_postcondition:
  assumes wf: "cache_wf h"
  shows "(\<forall>a st. activeCharacterId h = Some a \<and> map_of (characterCache h) a = Some st
            \<longrightarrow> map_of (characterCache (evictCharacters r h)) a = Some st)
       \<and> (only_pinned_cached (evictCharacters r h)
          \<or> (int (length (characterCache (evictCharacters r h))) < maxCachedCharacters h
             \<and> memoryUsageBytes (evictCharacters r h) \<le> memoryUsageBytes h - r))
       \<and> (memoryUsageBytes h - r \<le> memoryBudgetBytes h
            \<longrightarrow> only_pinned_cached (evictCharacters r h)
                \<or> memoryUsageBytes (evictCharacters r h) \<le> memoryBudgetBytes h)"
proof (cases "length (characterCache h) = 0")
  case True
  then show ?thesis by (simp add: evictCharacters_def only_pinned_cached_def)
next
  case False
  obtain te fr where c: "collectEvictions h r (evictionCandidates h) [] 0 = (te, fr)"
    by (cases "collectEvictions h r (evictionCandidates h) [] 0") auto
  let ?h1 = "fold evictOne te h"
  have cache': "characterCache (evictCharacters r h) = characterCache ?h1"
    and mem': "memoryUsageBytes (evictCharacters r h) = memoryUsageBytes ?h1"
    and act': "activeCharacterId (evictCharacters r h) = activeCharacterId h"
    using False c by (auto simp: evictCharacters_def Let_def fold_evictOne_active)
  from wf have dc: "distinct (map fst (characterCache h))"
    and dl: "distinct (map fst (lastAccessTimes h))"
    and sub: "set (map fst (characterCache h)) \<subseteq> set (map fst (lastAccessTimes h))"
    by (auto simp: cache_wf_def)
  from collectEvictions_spec[OF c] obtain new where n: "te = new"
    "fr = sum_list (map snd new)"
    "set (map fst new) \<subseteq> set (evictionCandidates h)"
    "distinct (evictionCandidates h) \<longrightarrow> distinct (map fst new)"
    "(r \<le> fr \<and> int (length (characterCache h)) - int (length te) < maxCachedCharacters h)
       \<or> (\<forall>c \<in> set (evictionCandidates h).
             c \<in> set (map fst (characterCache h)) \<longrightarrow> c \<in> set (map fst new))"
    by auto
  have te_cand: "set (map fst te) \<subseteq> set (evictionCandidates h)" using n by simp
  have te_dist: "distinct (map fst te)" using n evictionCandidates_distinct[OF dl] by simp
  have te_cached: "set (map fst te) \<subseteq> set (map fst (characterCache h))"
    using collectEvictions_cached[OF c] by simp
  have pinned: "\<forall>a st. activeCharacterId h = Some a \<and> map_of (characterCache h) a = Some st
            \<longrightarrow> map_of (characterCache (evictCharacters r h)) a = Some st"
  proof (intro allI impI)
    fix a st
    assume a: "activeCharacterId h = Some a \<and> map_of (characterCache h) a = Some st"
    then have "a \<notin> set (evictionCandidates h)" by (simp add: evictionCandidates_set)
    with te_cand have "a \<notin> set (map fst te)" by blast
    then show "map_of (characterCache (evictCharacters r h)) a = Some st"
      using a by (simp add: cache' fold_evictOne_cache map_of_filter_keys)
  qed
  have len: "int (length (characterCache ?h1))
      = int (length (characterCache h)) - int (length te)"
    using length_filter_keys[OF dc te_dist te_cached] by (simp add: fold_evictOne_cache)
  have bounds: "only_pinned_cached (evictCharacters r h)
          \<or> (int (length (characterCache (evictCharacters r h))) < maxCachedCharacters h
             \<and> memoryUsageBytes (evictCharacters r h) \<le> memoryUsageBytes h - r)"
    using n(5)
  proof
    assume "r \<le> fr
      \<and> int (length (characterCache h)) - int (length te) < maxCachedCharacters h"
    then show ?thesis
      using len n(1,2) by (simp add: cache' mem' fold_evictOne_memory)
  next
    assume ex: "\<forall>c \<in> set (evictionCandidates h).
      c \<in> set (map fst (characterCache h)) \<longrightarrow> c \<in> set (map fst new)"
    have "only_pinned_cached (evictCharacters r h)"
      unfolding only_pinned_cached_def cache' act' fold_evictOne_cache
    proof
      fix x
      assume "x \<in> set (map fst (filter (\<lambda>p. fst p \<notin> set (map fst te)) (characterCache h)))"
      then have x: "x \<in> set (map fst (characterCache h))" "x \<notin> set (map fst te)" by auto
      with sub have xl: "x \<in> set (map fst (lastAccessTimes h))" by blast
      show "x \<in> set_option (activeCharacterId h)"
      proof (rule ccontr)
        assume "x \<notin> set_option (activeCharacterId h)"
        then have "Some x \<noteq> activeCharacterId h" by (cases "activeCharacterId h") auto
        with xl have "x \<in> set (evictionCandidates h)"
          by (simp add: evictionCandidates_set)
        with ex x(1) have "x \<in> set (map fst new)" by blast
        with x(2) n(1) show False by simp
      qed
    qed
    then show ?thesis ..
  qed
  from bounds have "memoryUsageBytes h - r \<le> memoryBudgetBytes h
            \<longrightarrow> only_pinned_cached (evictCharacters r h)
                \<or> memoryUsageBytes (evictCharacters r h) \<le> memoryBudgetBytes h"
    by auto
  with pinned bounds show ?thesis by blast
qed

text \<open>
  The theorem at the handler in which p is active: a pass asking for 100 bytes evicts n,
  the only other character, and keeps p.
\<close>

theorem evictCharacters_postcondition_witness:
  "cache_wf handler_pinned_p
   \<and> map_of (characterCache (evictCharacters 100 handler_pinned_p)) ''p''
       = Some (state_of ''p'' 100)
   \<and> (only_pinned_cached (evictCharacters 100 handler_pinned_p)
      \<or> (int (length (characterCache (evictCharacters 100 handler_pinned_p)))
            < maxCachedCharacters handler_pinned_p
         \<and> memoryUsageBytes (evictCharacters 100 handler_pinned_p)
            \<le> memoryUsageBytes handler_pinned_p - 100))"
proof -
  have wf: "cache_wf handler_pinned_p"
    by (simp add: cache_example_defs cache_wf_def)
  have act: "activeCharacterId handler_pinned_p = Some ''p''"
    by (simp add: cache_example_defs)
  have st: "map_of (characterCache handler_pinned_p) ''p'' = Some (state_of ''p'' 100)"
    by (simp add: cache_example_defs)
  from evictCharacters_postcondition [OF wf, of 100] act st wf show ?thesis
    by blast
qed

text \<open>
  C9 as stated fails. With z active and not cached, the pass asking for 100 bytes (the
  pass that caching a state of that size starts) evicts p, the least recently used
  character, whose 200 bytes are enough, and stops: n stays cached, it is not the active
  character, and the tracked usage is 1500000 bytes against a budget of 1048576.
\<close>

theorem evictCharacters_over_budget_counterexample:
  "cache_wf handler_ghost_active
   \<and> map fst (characterCache (evictCharacters 100 handler_ghost_active)) = [''n'']
   \<and> activeCharacterId (evictCharacters 100 handler_ghost_active) = Some ''z''
   \<and> memoryUsageBytes (evictCharacters 100 handler_ghost_active) = 1500000
   \<and> memoryBudgetBytes (evictCharacters 100 handler_ghost_active) = 1048576
   \<and> \<not> (memoryUsageBytes (evictCharacters 100 handler_ghost_active)
          \<le> memoryBudgetBytes (evictCharacters 100 handler_ghost_active)
        \<or> only_pinned_cached (evictCharacters 100 handler_ghost_active))
   \<and> map fst (characterCache
         (snd (cacheCharacter ''q'' (state_of ''q'' 50) 4 handler_ghost_active)))
       = [''n'', ''q'']
   \<and> memoryUsageBytes (snd (cacheCharacter ''q'' (state_of ''q'' 50) 4 handler_ghost_active))
       = 1500100"
  by (simp add: cache_example_defs cache_wf_def only_pinned_cached_def)

section \<open>Properties of the zone swap engine\<close>

lemma storageCall_cases:
  "storageCall e = (f, e') \<Longrightarrow> e' = e\<lparr>faults := drop 1 (faults e)\<rparr>"
  by (auto simp: storageCall_def split: list.splits)

lemma load_ok:
  "loadCharacterBodyMap c e = (Inr m, e') \<Longrightarrow>
     m = bodyMaps e c \<and> e' = e\<lparr>faults := drop 1 (faults e)\<rparr>"
  by (auto simp: loadCharacterBodyMap_def split: prod.splits if_splits dest: storageCall_cases)

lemma load_err:
  "loadCharacterBodyMap c e = (Inl err, e') \<Longrightarrow> e' = e\<lparr>faults := drop 1 (faults e)\<rparr>"
  by (auto simp: loadCharacterBodyMap_def split: prod.splits if_splits dest: storageCall_cases)

lemma save_ok:
  "saveCharacterBodyMap c m e = (Inr r, e') \<Longrightarrow>
     e' = e\<lparr>faults := drop 1 (faults e), bodyMaps := (bodyMaps e)(c \<mapsto> m)\<rparr>"
  by (auto simp: saveCharacterBodyMap_def split: prod.splits if_splits dest: storageCall_cases)

lemma save_err:
  "saveCharacterBodyMap c m e = (Inl err, e') \<Longrightarrow> e' = e\<lparr>faults := drop 1 (faults e)\<rparr>"
  by (auto simp: saveCharacterBodyMap_def split: prod.splits if_splits dest: storageCall_cases)

lemma applyZoneSwap_success:
  assumes "applyZoneSwap a b z e = (r, e')" "zr_success r" "a \<noteq> b"
  shows "\<exists>A B. bodyMaps e a = Some A \<and> bodyMaps e b = Some B
     \<and> e' = e\<lparr>faults := drop 4 (faults e),
              bodyMaps := (bodyMaps e)(a \<mapsto> A(z := B z), b \<mapsto> B(z := A z))\<rparr>"
  using assms
  apply (auto simp: applyZoneSwap_def zoneFailure_def Let_def split: prod.splits sum.splits option.splits)
  apply (auto dest!: load_ok save_ok simp: eval_nat_numeral)
  apply (metis)
  done

lemma applyZoneSwap_error:
  "zr_success (fst (applyZoneSwap a b z e)) \<Longrightarrow> zr_error (fst (applyZoneSwap a b z e)) = None"
  by (auto simp: applyZoneSwap_def zoneFailure_def Let_def
      split: prod.splits sum.splits option.splits)

lemma applyZoneSwaps_errors:
  "list_all zr_success (fst (applyZoneSwaps a b zs e))
    \<Longrightarrow> map zr_error (fst (applyZoneSwaps a b zs e)) = replicate (length zs) None"
proof (induction zs arbitrary: e)
  case Nil
  then show ?case by simp
next
  case (Cons z zs)
  obtain r e1 where r: "applyZoneSwap a b z e = (r, e1)" by (cases "applyZoneSwap a b z e") auto
  obtain rs e2 where rs: "applyZoneSwaps a b zs e1 = (rs, e2)"
    by (cases "applyZoneSwaps a b zs e1") auto
  from Cons.prems r rs have ok: "zr_success r" "list_all zr_success rs" by simp_all
  from applyZoneSwap_error[of a b z e] r ok(1) have "zr_error r = None" by simp
  moreover from Cons.IH[of e1] rs ok(2) have "map zr_error rs = replicate (length zs) None"
    by simp
  ultimately show ?case using r rs by simp
qed

text \<open>
  Cloning throws only at a zone that reads as a function: a map of which no listed zone
  does is cloned, and so is a body map that is null.
\<close>

lemma cloneLoop_Inr:
  "\<forall>p\<in>set zs. m p \<noteq> Some ZFunction \<Longrightarrow> \<exists>c'. cloneLoop (Some m) zs c = Inr c'"
proof (induction zs arbitrary: c)
  case Nil
  then show ?case by simp
next
  case (Cons z zs)
  from Cons.prems have nz: "m z \<noteq> Some ZFunction"
    and rest: "\<forall>p\<in>set zs. m p \<noteq> Some ZFunction" by simp_all
  note ih = Cons.IH[OF rest]
  show ?case
  proof (cases "m z")
    case None
    with ih[of c] show ?thesis by simp
  next
    case (Some v)
    with nz have v: "v \<noteq> ZFunction" by simp
    show ?thesis
    proof (cases "truthy v")
      case False
      with Some ih[of c] show ?thesis by simp
    next
      case True
      from v obtain w where w: "jsonClone v = Some w"
        by (cases v) (simp_all add: jsonClone_def)
      from ih[of "if z = ''__proto__'' then c else c(z \<mapsto> w)"] Some True w
      show ?thesis by simp
    qed
  qed
qed

lemma cloneBodyMapZones_Inr:
  "\<forall>p\<in>set zs. m p \<noteq> Some ZFunction \<Longrightarrow> \<exists>c. cloneBodyMapZones (Some m) zs = Inr c"
  unfolding cloneBodyMapZones_def by (rule cloneLoop_Inr)

lemma cloneLoop_function:
  "z \<in> set zs \<Longrightarrow> m z = Some ZFunction \<Longrightarrow> cloneLoop (Some m) zs c = Inl JsonSyntaxError"
proof (induction zs arbitrary: c)
  case Nil
  then show ?case by simp
next
  case (Cons y ys)
  show ?case
  proof (cases "y = z")
    case True
    with Cons.prems(2) show ?thesis by (simp add: truthy_def jsonClone_def)
  next
    case False
    with Cons.prems have "z \<in> set ys" by simp
    from Cons.IH[OF this Cons.prems(2)] show ?thesis
      by (simp split: option.splits)
  qed
qed

lemma cloneBodyMapZones_function:
  "z \<in> set zs \<Longrightarrow> m z = Some ZFunction \<Longrightarrow> cloneBodyMapZones (Some m) zs = Inl JsonSyntaxError"
  unfolding cloneBodyMapZones_def by (rule cloneLoop_function)

lemma cloneLoop_Inl: "cloneLoop m zs c = Inl err \<Longrightarrow> err = JsonSyntaxError"
  by (induction m zs c rule: cloneLoop.induct)
     (auto split: option.splits if_splits)

lemma cloneBodyMapZones_Inl: "cloneBodyMapZones m zs = Inl err \<Longrightarrow> err = JsonSyntaxError"
  unfolding cloneBodyMapZones_def by (rule cloneLoop_Inl)

lemma applyZoneSwap_zone [simp]: "zr_zone (fst (applyZoneSwap a b z e)) = z"
  by (auto simp: applyZoneSwap_def zoneFailure_def Let_def split: prod.splits sum.splits option.splits)

lemma swap_zones_Cons: "swap_zones (z # zs) p = swap_zones zs (swap_zone z p)"
  by (simp add: swap_zones_def)

lemma swap_zones_distinct:
  "distinct zs \<Longrightarrow>
     fst (swap_zones zs (A, B)) z = (if z \<in> set zs then B z else A z)
   \<and> snd (swap_zones zs (A, B)) z = (if z \<in> set zs then A z else B z)"
proof (induction zs arbitrary: A B)
  case Nil
  then show ?case by (simp add: swap_zones_def)
next
  case (Cons y ys)
  then have d: "distinct ys" and ny: "y \<notin> set ys" by auto
  have ih1: "fst (swap_zones ys (A(y := B y), B(y := A y))) z
      = (if z \<in> set ys then (B(y := A y)) z else (A(y := B y)) z)"
    and ih2: "snd (swap_zones ys (A(y := B y), B(y := A y))) z
      = (if z \<in> set ys then (A(y := B y)) z else (B(y := A y)) z)"
    using Cons.IH[OF d, of "A(y := B y)" "B(y := A y)"] by blast+
  have sz: "swap_zones (y # ys) (A, B) = swap_zones ys (A(y := B y), B(y := A y))"
    by (simp add: swap_zones_Cons swap_zone_def)
  show ?case unfolding sz ih1 ih2 using ny by auto
qed

lemma applyZoneSwaps_Cons:
  "applyZoneSwap a b z e = (r, e1) \<Longrightarrow> applyZoneSwaps a b zs e1 = (rs, e2)
     \<Longrightarrow> applyZoneSwaps a b (z # zs) e = (r # rs, e2)"
  by simp

lemma applyZoneSwap_success_given:
  assumes r: "applyZoneSwap a b z e = (r, e1)" and ok: "zr_success r" and ab: "a \<noteq> b"
    and A: "bodyMaps e a = Some A" and B: "bodyMaps e b = Some B"
  shows "e1 = e\<lparr>faults := drop 4 (faults e),
              bodyMaps := (bodyMaps e)(a \<mapsto> A(z := B z), b \<mapsto> B(z := A z))\<rparr>"
proof -
  from applyZoneSwap_success[OF r ok ab] obtain A' B' where
    "bodyMaps e a = Some A'" "bodyMaps e b = Some B'"
    "e1 = e\<lparr>faults := drop 4 (faults e),
              bodyMaps := (bodyMaps e)(a \<mapsto> A'(z := B' z), b \<mapsto> B'(z := A' z))\<rparr>"
    by blast
  with A B show ?thesis by simp
qed

lemma applyZoneSwaps_success:
  assumes "applyZoneSwaps a b zs e = (rs, e')" "list_all zr_success rs" "a \<noteq> b"
    "bodyMaps e a = Some A" "bodyMaps e b = Some B"
  shows "e' = e\<lparr>faults := drop (4 * length zs) (faults e),
              bodyMaps := (bodyMaps e)(a \<mapsto> fst (swap_zones zs (A, B)),
                                       b \<mapsto> snd (swap_zones zs (A, B)))\<rparr>"
  using assms
proof (induction zs arbitrary: e e' rs A B)
  case Nil
  from Nil.prems(4,5) have upd: "(bodyMaps e)(a \<mapsto> A, b \<mapsto> B) = bodyMaps e"
    by (auto simp: fun_eq_iff)
  from Nil.prems(1) have e': "e' = e" by simp
  have s0: "swap_zones [] (A, B) = (A, B)" by (simp add: swap_zones_def)
  have d0: "drop (4 * length ([]::zone list)) (faults e) = faults e" by simp
  have r0: "e\<lparr>faults := faults e, bodyMaps := bodyMaps e\<rparr> = e" by simp
  show ?case unfolding e' s0 d0 fst_conv snd_conv upd r0 ..
next
  case (Cons z zs)
  obtain r e1 where r: "applyZoneSwap a b z e = (r, e1)" by (cases "applyZoneSwap a b z e") auto
  obtain rs' e2 where rs': "applyZoneSwaps a b zs e1 = (rs', e2)"
    by (cases "applyZoneSwaps a b zs e1") auto
  from Cons.prems(1) applyZoneSwaps_Cons[OF r rs'] have eq: "rs = r # rs'" "e' = e2" by simp_all
  with Cons.prems(2) have ok: "zr_success r" "list_all zr_success rs'" by simp_all
  let ?A1 = "A(z := B z)" and ?B1 = "B(z := A z)"
  note e1 = applyZoneSwap_success_given[OF r ok(1) Cons.prems(3,4,5)]
  have m1: "bodyMaps e1 a = Some ?A1" "bodyMaps e1 b = Some ?B1"
    using Cons.prems(3) by (simp_all add: e1)
  have sz: "swap_zones (z # zs) (A, B) = swap_zones zs (?A1, ?B1)"
    by (simp add: swap_zones_Cons swap_zone_def)
  have dr: "drop (4 * length zs) (drop 4 (faults e)) = drop (4 * length (z # zs)) (faults e)"
    by (simp add: add.commute)
  have f1: "faults e1 = drop 4 (faults e)" by (simp add: e1)
  have b1: "(bodyMaps e1)(a \<mapsto> X, b \<mapsto> Y) = (bodyMaps e)(a \<mapsto> X, b \<mapsto> Y)" for X Y
    using Cons.prems(3) by (auto simp: e1 fun_eq_iff)
  have e1': "e1\<lparr>faults := F, bodyMaps := M\<rparr> = e\<lparr>faults := F, bodyMaps := M\<rparr>" for F M
    by (simp add: e1)
  from Cons.IH[OF rs' ok(2) Cons.prems(3) m1]
  have "e2 = e1\<lparr>faults := drop (4 * length zs) (faults e1),
              bodyMaps := (bodyMaps e1)(a \<mapsto> fst (swap_zones zs (?A1, ?B1)),
                                       b \<mapsto> snd (swap_zones zs (?A1, ?B1)))\<rparr>" .
  then show ?case unfolding eq sz f1 b1 e1' dr .
qed

lemma addToHistory_fields [simp]:
  "bodyMaps (addToHistory sd e) = bodyMaps e"
  "activeSwaps (addToHistory sd e) = activeSwaps e"
  "faults (addToHistory sd e) = faults e"
  "engine_errors (addToHistory sd e) = engine_errors e"
  by (simp_all add: addToHistory_def Let_def)

lemma executeSwap_success:
  assumes "executeSwap a b zs g e = (r, e')" "sr_success r"
  shows "\<exists>e1 e2. applyZoneSwaps a b zs e1 = (sr_results r, e2)
          \<and> bodyMaps e1 = bodyMaps e \<and> faults e1 = drop 2 (faults e)
          \<and> bodyMaps e' = bodyMaps e2 \<and> faults e' = faults e2
          \<and> sr_zones r = Some zs"
proof -
  let ?e0 = "e\<lparr>swapCounter := swapCounter e + 1\<rparr>"
  from assms obtain sm e1 tm e2 where
    l1: "loadCharacterBodyMap a ?e0 = (Inr sm, e1)" and
    l2: "loadCharacterBodyMap b e1 = (Inr tm, e2)"
    by (auto simp: executeSwap_def executeSwapTry_def Let_def split: prod.splits sum.splits)
  obtain rs e3 where z: "applyZoneSwaps a b zs e2 = (rs, e3)"
    by (cases "applyZoneSwaps a b zs e2") auto
  from load_ok[OF l1] load_ok[OF l2]
  have e2: "bodyMaps e2 = bodyMaps e" "faults e2 = drop 2 (faults e)"
    by (simp_all add: eval_nat_numeral)
  from assms l1 l2 z have "sr_results r = rs \<and> sr_zones r = Some zs
      \<and> bodyMaps e' = bodyMaps e3 \<and> faults e' = faults e3"
    by (auto simp: executeSwap_def executeSwapTry_def Let_def split: if_splits sum.splits)
  with z e2 show ?thesis by blast
qed

lemma getZonesForGarment_mapper:
  "garmentZoneMapper e' = garmentZoneMapper e \<Longrightarrow> getZonesForGarment t e' = getZonesForGarment t e"
  by (simp add: getZonesForGarment_def)

lemma getGarmentById_mapper:
  "garmentZoneMapper e' = garmentZoneMapper e \<Longrightarrow> getGarmentById g e' = getGarmentById g e"
  by (simp add: getGarmentById_def getZonesForGarment_mapper[of e' e] cong: list.case_cong option.case_cong if_cong)

lemma getGarmentById_zones:
  "getGarmentById g e = Inr garm \<Longrightarrow> getZonesForGarment (g_type garm) e = Inr (g_zones garm)"
  by (auto simp: getGarmentById_def Let_def split: if_splits list.splits option.splits sum.splits)

lemma handleError_fields [simp]:
  "bodyMaps (handleError c err False e) = bodyMaps e"
  "faults (handleError c err False e) = faults e"
  "activeSwaps (handleError c err False e) = activeSwaps e"
  "swapHistory (handleError c err False e) = swapHistory e"
  "swapCounter (handleError c err False e) = swapCounter e"
  "clock (handleError c err False e) = clock e"
  "historyLimit (handleError c err False e) = historyLimit e"
  "reciprocalSwapHandler (handleError c err False e) = reciprocalSwapHandler e"
  "reciprocalTransformations (handleError c err False e) = reciprocalTransformations e"
  "bidirectionalSwaps (handleError c err False e) = bidirectionalSwaps e"
  "garmentZoneMapper (handleError c err False e) = garmentZoneMapper e"
  "bodyMapValidator (handleError c err False e) = bodyMapValidator e"
  "initialized (handleError c err False e) = initialized e"
  "enabled (handleError c err False e) = enabled e"
  "engine_errors (handleError c err False e)
     = engine_errors e @ [\<lparr>ei_context = c, ei_message = err, ei_critical = False\<rparr>]"
  by (simp_all add: handleError_def Let_def)

lemma checkValidation_fields [simp]:
  "bodyMaps (snd (checkValidation sm tm zs e)) = bodyMaps e"
  "faults (snd (checkValidation sm tm zs e)) = faults e"
  "activeSwaps (snd (checkValidation sm tm zs e)) = activeSwaps e"
  "swapHistory (snd (checkValidation sm tm zs e)) = swapHistory e"
  "swapCounter (snd (checkValidation sm tm zs e)) = swapCounter e"
  "clock (snd (checkValidation sm tm zs e)) = clock e"
  "historyLimit (snd (checkValidation sm tm zs e)) = historyLimit e"
  "reciprocalSwapHandler (snd (checkValidation sm tm zs e)) = reciprocalSwapHandler e"
  "reciprocalTransformations (snd (checkValidation sm tm zs e)) = reciprocalTransformations e"
  "bidirectionalSwaps (snd (checkValidation sm tm zs e)) = bidirectionalSwaps e"
  "garmentZoneMapper (snd (checkValidation sm tm zs e)) = garmentZoneMapper e"
  "initialized (snd (checkValidation sm tm zs e)) = initialized e"
  "enabled (snd (checkValidation sm tm zs e)) = enabled e"
  by (auto simp: checkValidation_def validateSwap_def Let_def
      split: prod.splits option.splits)

lemma performSwapOperation_Inr:
  assumes "performSwapOperation a b g e = (Inr r, e')"
  shows "\<exists>garm zs e3 e4. a \<noteq> b \<and> a \<noteq> [] \<and> b \<noteq> [] \<and> zs \<noteq> []
      \<and> getGarmentById g e = Inr garm \<and> getZonesForGarment (g_type garm) e = Inr zs
      \<and> executeSwap a b zs garm e3 = (r, e4)
      \<and> e' = e4\<lparr>successfulSwaps := successfulSwaps e4 + 1\<rparr>
      \<and> bodyMaps e3 = bodyMaps e \<and> faults e3 = drop 2 (faults e)
      \<and> activeSwaps e3 = activeSwaps e \<and> swapHistory e3 = swapHistory e
      \<and> swapCounter e3 = swapCounter e \<and> clock e3 = clock e
      \<and> historyLimit e3 = historyLimit e
      \<and> reciprocalSwapHandler e3 = reciprocalSwapHandler e
      \<and> reciprocalTransformations e3 = reciprocalTransformations e
      \<and> bidirectionalSwaps e3 = bidirectionalSwaps e"
proof -
  let ?e0 = "e\<lparr>totalSwaps := Suc (totalSwaps e)\<rparr>"
  have gm: "getGarmentById g (e\<lparr>totalSwaps := n\<rparr>) = getGarmentById g e" for n
    by (rule getGarmentById_mapper) simp
  have zm: "getZonesForGarment t (e\<lparr>totalSwaps := n\<rparr>) = getZonesForGarment t e" for t n
    by (rule getZonesForGarment_mapper) simp
  from assms have ne: "a \<noteq> []" "b \<noteq> []" "a \<noteq> b"
    by (auto simp: performSwapOperation_def Let_def split: if_splits)
  from assms ne obtain garm where g: "getGarmentById g e = Inr garm"
    by (auto simp: performSwapOperation_def Let_def gm split: if_splits sum.splits)
  from assms ne g obtain zs where zs: "getZonesForGarment (g_type garm) e = Inr zs" "zs \<noteq> []"
    by (auto simp: performSwapOperation_def Let_def gm zm split: if_splits sum.splits)
  from assms ne g zs obtain sm e1 where l1: "loadCharacterBodyMap a ?e0 = (Inr sm, e1)"
    by (auto simp: performSwapOperation_def Let_def gm zm split: if_splits sum.splits prod.splits)
  from assms ne g zs l1 obtain tm e2 where l2: "loadCharacterBodyMap b e1 = (Inr tm, e2)"
    by (auto simp: performSwapOperation_def Let_def gm zm split: if_splits sum.splits prod.splits)
  obtain v e3 where cv: "checkValidation sm tm zs e2 = (v, e3)"
    by (cases "checkValidation sm tm zs e2") auto
  obtain r' e4 where ex: "executeSwap a b zs garm e3 = (r', e4)"
    by (cases "executeSwap a b zs garm e3") auto
  from assms ne g zs l1 l2 cv ex have res: "r' = r" "e' = e4\<lparr>successfulSwaps := successfulSwaps e4 + 1\<rparr>"
    by (auto simp: performSwapOperation_def Let_def gm zm split: if_splits sum.splits prod.splits)
  have e3: "e3 = snd (checkValidation sm tm zs e2)" using cv by simp
  from load_ok[OF l1] load_ok[OF l2] have e2: "e2 = e\<lparr>totalSwaps := Suc (totalSwaps e), faults := drop 2 (faults e)\<rparr>"
    by (simp add: eval_nat_numeral)
  have "bodyMaps e3 = bodyMaps e \<and> faults e3 = drop 2 (faults e)
      \<and> activeSwaps e3 = activeSwaps e \<and> swapHistory e3 = swapHistory e
      \<and> swapCounter e3 = swapCounter e \<and> clock e3 = clock e
      \<and> historyLimit e3 = historyLimit e
      \<and> reciprocalSwapHandler e3 = reciprocalSwapHandler e
      \<and> reciprocalTransformations e3 = reciprocalTransformations e
      \<and> bidirectionalSwaps e3 = bidirectionalSwaps e"
    by (simp add: e3 e2)
  with ne g zs ex res show ?thesis by blast
qed

lemma applyZoneSwaps_success_maps:
  assumes "applyZoneSwaps a b zs e = (rs, e')" "list_all zr_success rs" "a \<noteq> b" "zs \<noteq> []"
  shows "\<exists>A B. bodyMaps e a = Some A \<and> bodyMaps e b = Some B"
proof -
  from assms(4) obtain z zs' where zs: "zs = z # zs'" by (cases zs) auto
  obtain r e1 where r: "applyZoneSwap a b z e = (r, e1)" by (cases "applyZoneSwap a b z e") auto
  obtain rs' e2 where rs': "applyZoneSwaps a b zs' e1 = (rs', e2)"
    by (cases "applyZoneSwaps a b zs' e1") auto
  from assms(1) applyZoneSwaps_Cons[OF r rs'] have "rs = r # rs'" by (simp add: zs)
  with assms(2) have "zr_success r" by simp
  from applyZoneSwap_success[OF r this assms(3)] show ?thesis by blast
qed

lemma executeSwap_exchanges:
  assumes ex: "executeSwap a b zs g e = (r, e')"
    and ok: "sr_success r" "list_all zr_success (sr_results r)"
    and ab: "a \<noteq> b" and ne: "zs \<noteq> []"
  shows "\<exists>A B. bodyMaps e a = Some A \<and> bodyMaps e b = Some B
     \<and> bodyMaps e' = (bodyMaps e)(a \<mapsto> fst (swap_zones zs (A, B)),
                                 b \<mapsto> snd (swap_zones zs (A, B)))"
proof -
  from executeSwap_success[OF ex ok(1)] obtain e1 e2 where
    z: "applyZoneSwaps a b zs e1 = (sr_results r, e2)" and
    e1: "bodyMaps e1 = bodyMaps e" and e': "bodyMaps e' = bodyMaps e2"
    by blast
  from applyZoneSwaps_success_maps[OF z ok(2) ab ne] obtain A B where
    AB: "bodyMaps e1 a = Some A" "bodyMaps e1 b = Some B" by blast
  from applyZoneSwaps_success[OF z ok(2) ab AB]
  have "bodyMaps e2 = (bodyMaps e1)(a \<mapsto> fst (swap_zones zs (A, B)),
                                 b \<mapsto> snd (swap_zones zs (A, B)))"
    by simp
  with AB e1 e' show ?thesis by simp
qed

lemma performSwap_Some:
  "performSwap a b g e = (Inr (Some r), e') \<Longrightarrow> performSwapOperation a b g e = (Inr r, e')"
  by (auto simp: performSwap_def safeOperation_def split: if_splits prod.splits sum.splits)

text \<open>
  C1, as the code has it. When \<open>performSwap\<close> succeeds with every zone result a success and
  the zones of the swap are pairwise distinct, the two characters are distinct, the zone
  list is not empty, and afterwards each character has at every zone of the list the value
  that the other character had before the swap; every other zone of both is unchanged.
\<close>

theorem performSwap_exchanges_zones:
  assumes ps: "performSwap a b g e = (Inr (Some r), e')"
    and ok: "sr_success r" "list_all zr_success (sr_results r)"
    and zs: "sr_zones r = Some zs" and d: "distinct zs"
  shows "a \<noteq> b \<and> zs \<noteq> []
     \<and> (\<exists>A B A' B'. bodyMaps e a = Some A \<and> bodyMaps e b = Some B
          \<and> bodyMaps e' a = Some A' \<and> bodyMaps e' b = Some B'
          \<and> (\<forall>z. A' z = (if z \<in> set zs then B z else A z)
                 \<and> B' z = (if z \<in> set zs then A z else B z)))"
proof -
  from performSwapOperation_Inr[OF performSwap_Some[OF ps]] obtain garm zs' e3 e4 where
    ab: "a \<noteq> b" and ne: "zs' \<noteq> []" and ex: "executeSwap a b zs' garm e3 = (r, e4)"
    and e': "e' = e4\<lparr>successfulSwaps := successfulSwaps e4 + 1\<rparr>"
    and e3: "bodyMaps e3 = bodyMaps e"
    by blast
  from executeSwap_success[OF ex ok(1)] zs have zz: "zs' = zs" by auto
  from executeSwap_exchanges[OF ex ok ab ne] obtain A B where
    AB: "bodyMaps e3 a = Some A" "bodyMaps e3 b = Some B" and
    m: "bodyMaps e4 = (bodyMaps e3)(a \<mapsto> fst (swap_zones zs' (A, B)),
                                 b \<mapsto> snd (swap_zones zs' (A, B)))"
    by blast
  let ?A' = "fst (swap_zones zs (A, B))" and ?B' = "snd (swap_zones zs (A, B))"
  have "bodyMaps e' a = Some ?A'" "bodyMaps e' b = Some ?B'"
    using ab by (simp_all add: e' m zz)
  moreover have "\<forall>z. ?A' z = (if z \<in> set zs then B z else A z)
                 \<and> ?B' z = (if z \<in> set zs then A z else B z)"
    using swap_zones_distinct[OF d] by blast
  ultimately show ?thesis using ab ne zz AB e3 by auto
qed

text \<open>
  C6. For two distinct characters and a list of distinct zones, running the swap over the
  zones in one order and over any permutation of them, both runs successful in every zone,
  leaves the same body maps in the store.
\<close>

theorem executeSwap_zone_order_irrelevant:
  assumes ab: "a \<noteq> b" and d: "distinct zs" and perm: "mset zs' = mset zs"
    and ex1: "executeSwap a b zs g e = (r1, e1)"
    and ex2: "executeSwap a b zs' g e = (r2, e2)"
    and ok1: "sr_success r1" "list_all zr_success (sr_results r1)"
    and ok2: "sr_success r2" "list_all zr_success (sr_results r2)"
  shows "bodyMaps e1 = bodyMaps e2"
proof (cases "zs = []")
  case True
  with perm have z': "zs' = []" by simp
  from executeSwap_success[OF ex1 ok1(1)] True have "bodyMaps e1 = bodyMaps e" by auto
  moreover from executeSwap_success[OF ex2 ok2(1)] z' have "bodyMaps e2 = bodyMaps e" by auto
  ultimately show ?thesis by simp
next
  case False
  with perm have ne': "zs' \<noteq> []" by auto
  from perm have s: "set zs' = set zs" by (metis set_mset_mset)
  from perm d have d': "distinct zs'" by (metis mset_eq_imp_distinct_iff)
  from executeSwap_exchanges[OF ex1 ok1 ab False] obtain A B where
    AB: "bodyMaps e a = Some A" "bodyMaps e b = Some B" and
    m1: "bodyMaps e1 = (bodyMaps e)(a \<mapsto> fst (swap_zones zs (A, B)),
                                 b \<mapsto> snd (swap_zones zs (A, B)))"
    by blast
  from executeSwap_exchanges[OF ex2 ok2 ab ne'] AB have
    m2: "bodyMaps e2 = (bodyMaps e)(a \<mapsto> fst (swap_zones zs' (A, B)),
                                 b \<mapsto> snd (swap_zones zs' (A, B)))"
    by auto
  have "fst (swap_zones zs (A, B)) = fst (swap_zones zs' (A, B))"
    using swap_zones_distinct[OF d, of A B] swap_zones_distinct[OF d', of A B] s
    by (auto simp: fun_eq_iff)
  moreover have "snd (swap_zones zs (A, B)) = snd (swap_zones zs' (A, B))"
    using swap_zones_distinct[OF d, of A B] swap_zones_distinct[OF d', of A B] s
    by (auto simp: fun_eq_iff)
  ultimately show ?thesis by (simp add: m1 m2)
qed

lemma same_control_refl [simp]: "same_control e e"
  by (simp add: same_control_def)

lemma same_control_trans: "same_control e e1 \<Longrightarrow> same_control e1 e2 \<Longrightarrow> same_control e e2"
  by (simp add: same_control_def)

lemma load_control: "same_control e (snd (loadCharacterBodyMap c e))"
  by (cases "loadCharacterBodyMap c e", case_tac a)
     (auto dest!: load_ok load_err simp: same_control_def)

lemma save_control: "same_control e (snd (saveCharacterBodyMap c m e))"
  by (cases "saveCharacterBodyMap c m e", case_tac a)
     (auto dest!: save_ok save_err simp: same_control_def)

lemma handleError_control: "same_control e (handleError c err False e)"
  by (simp add: same_control_def)

lemma applyZoneSwap_control: "same_control e (snd (applyZoneSwap a b z e))"
proof -
  have step: "same_control e e1 \<Longrightarrow> same_control e (handleError c err False e1)" for e1 c err
    by (simp add: same_control_def)
  show ?thesis
    unfolding applyZoneSwap_def Let_def
    apply (simp split: prod.splits sum.splits option.splits)
    apply (intro conjI allI impI)
    apply (auto dest!: load_ok load_err save_ok save_err simp: same_control_def)
    done
qed

lemma applyZoneSwaps_control: "same_control e (snd (applyZoneSwaps a b zs e))"
proof (induction zs arbitrary: e)
  case Nil
  show ?case by simp
next
  case (Cons z zs)
  have "snd (applyZoneSwaps a b (z # zs) e) = snd (applyZoneSwaps a b zs (snd (applyZoneSwap a b z e)))"
    by (simp split: prod.splits)
  with same_control_trans[OF applyZoneSwap_control[of e a b z] Cons.IH[of "snd (applyZoneSwap a b z e)"]]
  show ?case by simp
qed

lemma applyZoneSwap_no_fault:
  assumes "faults e = False # False # False # False # fs" "a \<noteq> []" "b \<noteq> []" "a \<noteq> b"
    "bodyMaps e a = Some A" "bodyMaps e b = Some B"
  shows "applyZoneSwap a b z e =
     (\<lparr>zr_zone = z, zr_success = True, zr_sourceData = A z, zr_targetData = B z,
       zr_error = None\<rparr>,
      e\<lparr>faults := fs, bodyMaps := (bodyMaps e)(a \<mapsto> A(z := B z), b \<mapsto> B(z := A z))\<rparr>)"
  using assms
  by (simp add: applyZoneSwap_def loadCharacterBodyMap_def saveCharacterBodyMap_def
      storageCall_def Let_def)

lemma applyZoneSwaps_no_fault:
  assumes "faults e = replicate (4 * length zs) False @ fs" "a \<noteq> []" "b \<noteq> []" "a \<noteq> b"
    "bodyMaps e a = Some A" "bodyMaps e b = Some B"
  shows "list_all zr_success (fst (applyZoneSwaps a b zs e))
     \<and> map zr_zone (fst (applyZoneSwaps a b zs e)) = zs
     \<and> snd (applyZoneSwaps a b zs e) =
        e\<lparr>faults := fs,
          bodyMaps := (bodyMaps e)(a \<mapsto> fst (swap_zones zs (A, B)),
                                   b \<mapsto> snd (swap_zones zs (A, B)))\<rparr>"
  using assms
proof (induction zs arbitrary: e A B)
  case Nil
  from Nil.prems(5,6) have upd: "(bodyMaps e)(a \<mapsto> A, b \<mapsto> B) = bodyMaps e"
    by (auto simp: fun_eq_iff)
  from Nil.prems(1) have f: "faults e = fs" by simp
  have s0: "swap_zones [] (A, B) = (A, B)" by (simp add: swap_zones_def)
  have r0: "e\<lparr>faults := fs, bodyMaps := bodyMaps e\<rparr> = e" by (simp add: f[symmetric])
  show ?case unfolding s0 fst_conv snd_conv upd r0 by simp
next
  case (Cons z zs)
  let ?A1 = "A(z := B z)" and ?B1 = "B(z := A z)"
  let ?e1 = "e\<lparr>faults := replicate (4 * length zs) False @ fs,
              bodyMaps := (bodyMaps e)(a \<mapsto> ?A1, b \<mapsto> ?B1)\<rparr>"
  from Cons.prems(1) have f: "faults e = False # False # False # False # (replicate (4 * length zs) False @ fs)"
    by (simp add: replicate_add[symmetric] eval_nat_numeral)
  note step = applyZoneSwap_no_fault[OF f Cons.prems(2,3,4,5,6), of z]
  have f1: "faults ?e1 = replicate (4 * length zs) False @ fs" by simp
  have m1: "bodyMaps ?e1 a = Some ?A1" "bodyMaps ?e1 b = Some ?B1"
    using Cons.prems(4) by simp_all
  note ih = Cons.IH[OF f1 Cons.prems(2,3,4) m1]
  have sz: "swap_zones (z # zs) (A, B) = swap_zones zs (?A1, ?B1)"
    by (simp add: swap_zones_Cons swap_zone_def)
  have b1: "(bodyMaps ?e1)(a \<mapsto> X, b \<mapsto> Y) = (bodyMaps e)(a \<mapsto> X, b \<mapsto> Y)" for X Y
    using Cons.prems(4) by (auto simp: fun_eq_iff)
  have e1': "?e1\<lparr>faults := F, bodyMaps := M\<rparr> = e\<lparr>faults := F, bodyMaps := M\<rparr>" for F M
    by simp
  have unf: "applyZoneSwaps a b (z # zs) e =
      (fst (applyZoneSwap a b z e) # fst (applyZoneSwaps a b zs (snd (applyZoneSwap a b z e))),
       snd (applyZoneSwaps a b zs (snd (applyZoneSwap a b z e))))"
    by (simp split: prod.splits)
  from ih have i1: "list_all zr_success (fst (applyZoneSwaps a b zs ?e1))"
    and i2: "map zr_zone (fst (applyZoneSwaps a b zs ?e1)) = zs"
    and i3: "snd (applyZoneSwaps a b zs ?e1) =
        ?e1\<lparr>faults := fs,
          bodyMaps := (bodyMaps ?e1)(a \<mapsto> fst (swap_zones zs (?A1, ?B1)),
                                   b \<mapsto> snd (swap_zones zs (?A1, ?B1)))\<rparr>"
    by blast+
  note i3' = i3[unfolded b1 e1']
  show ?case
    unfolding unf step fst_conv snd_conv sz
  proof (intro conjI)
    show "list_all zr_success
        (\<lparr>zr_zone = z, zr_success = True, zr_sourceData = A z, zr_targetData = B z,
           zr_error = None\<rparr> # fst (applyZoneSwaps a b zs ?e1))"
      using i1 by simp
    show "map zr_zone
        (\<lparr>zr_zone = z, zr_success = True, zr_sourceData = A z, zr_targetData = B z,
           zr_error = None\<rparr> # fst (applyZoneSwaps a b zs ?e1)) = z # zs"
      using i2 by simp
    show "snd (applyZoneSwaps a b zs ?e1) =
        e\<lparr>faults := fs,
          bodyMaps := (bodyMaps e)(a \<mapsto> fst (swap_zones zs (?A1, ?B1)),
                                   b \<mapsto> snd (swap_zones zs (?A1, ?B1)))\<rparr>"
      by (rule i3')
  qed
qed

lemma applyZoneSwap_fault:
  assumes "faults e = replicate k False @ True # rest" "k < 4"
    "a \<noteq> []" "b \<noteq> []" "bodyMaps e a \<noteq> None" "bodyMaps e b \<noteq> None"
  shows "fst (applyZoneSwap a b z e) = zoneFailure z StorageFailure"
proof -
  from assms(2) have "k = 0 \<or> k = 1 \<or> k = 2 \<or> k = 3" by auto
  then show ?thesis
    using assms(1,3,4,5,6)
    by (auto simp: applyZoneSwap_def loadCharacterBodyMap_def saveCharacterBodyMap_def
        storageCall_def Let_def eval_nat_numeral)
qed

lemma applyZoneSwap_frame:
  assumes "bodyMaps e a = Some A" "bodyMaps e b = Some B" "a \<noteq> b"
  shows "\<exists>A' B'. bodyMaps (snd (applyZoneSwap a b z e)) a = Some A'
      \<and> bodyMaps (snd (applyZoneSwap a b z e)) b = Some B'
      \<and> (\<forall>p. p \<noteq> z \<longrightarrow> A' p = A p \<and> B' p = B p)"
  using assms
  unfolding applyZoneSwap_def Let_def
  apply (simp split: prod.splits sum.splits option.splits)
  apply (intro conjI allI impI)
  apply (auto dest!: load_ok load_err save_ok save_err)
  done

lemma applyZoneSwaps_frame:
  assumes "bodyMaps e a = Some A" "bodyMaps e b = Some B" "a \<noteq> b"
  shows "\<exists>A' B'. bodyMaps (snd (applyZoneSwaps a b zs e)) a = Some A'
      \<and> bodyMaps (snd (applyZoneSwaps a b zs e)) b = Some B'
      \<and> (\<forall>p. p \<notin> set zs \<longrightarrow> A' p = A p \<and> B' p = B p)"
  using assms
proof (induction zs arbitrary: e A B)
  case Nil
  then show ?case by simp
next
  case (Cons z zs)
  let ?e1 = "snd (applyZoneSwap a b z e)"
  from applyZoneSwap_frame[OF Cons.prems, of z] obtain A1 B1 where
    s1: "bodyMaps ?e1 a = Some A1" "bodyMaps ?e1 b = Some B1"
      "\<forall>p. p \<noteq> z \<longrightarrow> A1 p = A p \<and> B1 p = B p"
    by blast
  from Cons.IH[OF s1(1,2) Cons.prems(3)] obtain A' B' where
    s2: "bodyMaps (snd (applyZoneSwaps a b zs ?e1)) a = Some A'"
      "bodyMaps (snd (applyZoneSwaps a b zs ?e1)) b = Some B'"
      "\<forall>p. p \<notin> set zs \<longrightarrow> A' p = A1 p \<and> B' p = B1 p"
    by blast
  have unf: "snd (applyZoneSwaps a b (z # zs) e) = snd (applyZoneSwaps a b zs ?e1)"
    by (simp split: prod.splits)
  from s1(3) s2 show ?case unfolding unf by auto
qed

lemma applyZoneSwaps_zones: "map zr_zone (fst (applyZoneSwaps a b zs e)) = zs"
proof (induction zs arbitrary: e)
  case Nil
  show ?case by simp
next
  case (Cons z zs)
  have "fst (applyZoneSwaps a b (z # zs) e) =
      fst (applyZoneSwap a b z e) # fst (applyZoneSwaps a b zs (snd (applyZoneSwap a b z e)))"
    by (simp split: prod.splits)
  then show ?case using Cons.IH by simp
qed

lemma applyZoneSwaps_append:
  "applyZoneSwaps a b (xs @ ys) e =
     (fst (applyZoneSwaps a b xs e) @ fst (applyZoneSwaps a b ys (snd (applyZoneSwaps a b xs e))),
      snd (applyZoneSwaps a b ys (snd (applyZoneSwaps a b xs e))))"
proof (induction xs arbitrary: e)
  case Nil
  show ?case by simp
next
  case (Cons x xs)
  show ?case by (simp add: Cons.IH split: prod.splits)
qed

lemma checkValidation_settings:
  assumes "autoValidation e' = autoValidation e"
    "validateTransformations e' = validateTransformations e"
    "allowPartialTransformations e' = allowPartialTransformations e"
    "bodyMapValidator e' = bodyMapValidator e"
  shows "fst (checkValidation sm tm zs e') = fst (checkValidation sm tm zs e)"
  using assms
  by (auto simp: checkValidation_def validateSwap_def handleError_def Let_def
      split: prod.splits option.splits)

lemma performSwapOperation_run:
  assumes "a \<noteq> []" "b \<noteq> []" "a \<noteq> b" "getGarmentById g e = Inr garm"
    "g_zones garm \<noteq> []" "faults e = False # False # fs"
    "fst (checkValidation (bodyMaps e a) (bodyMaps e b) (g_zones garm) e) = Inr ()"
  shows "\<exists>e3. performSwapOperation a b g e =
       (Inr (fst (executeSwap a b (g_zones garm) garm e3)),
        (snd (executeSwap a b (g_zones garm) garm e3))
          \<lparr>successfulSwaps := successfulSwaps (snd (executeSwap a b (g_zones garm) garm e3)) + 1\<rparr>)
     \<and> bodyMaps e3 = bodyMaps e \<and> faults e3 = fs \<and> same_control e e3"
proof -
  have gm: "getGarmentById g (e\<lparr>totalSwaps := n\<rparr>) = getGarmentById g e" for n
    by (rule getGarmentById_mapper) simp
  have zm: "getZonesForGarment t (e\<lparr>totalSwaps := n\<rparr>) = getZonesForGarment t e" for t n
    by (rule getZonesForGarment_mapper) simp
  from assms(4) have gne: "g \<noteq> []" by (auto simp: getGarmentById_def)
  let ?e2 = "e\<lparr>totalSwaps := Suc (totalSwaps e), faults := fs\<rparr>"
  obtain v e3 where cv: "checkValidation (bodyMaps e a) (bodyMaps e b) (g_zones garm) ?e2 = (v, e3)"
    by (cases "checkValidation (bodyMaps e a) (bodyMaps e b) (g_zones garm) ?e2") auto
  have "fst (checkValidation (bodyMaps e a) (bodyMaps e b) (g_zones garm) ?e2)
      = fst (checkValidation (bodyMaps e a) (bodyMaps e b) (g_zones garm) e)"
    by (rule checkValidation_settings) simp_all
  with assms(7) cv have v: "v = Inr ()" by simp
  obtain r e4 where ex: "executeSwap a b (g_zones garm) garm e3 = (r, e4)"
    by (cases "executeSwap a b (g_zones garm) garm e3") auto
  have e3: "e3 = snd (checkValidation (bodyMaps e a) (bodyMaps e b) (g_zones garm) ?e2)"
    using cv by simp
  have l1: "loadCharacterBodyMap a (e\<lparr>totalSwaps := Suc (totalSwaps e)\<rparr>)
      = (Inr (bodyMaps e a), e\<lparr>totalSwaps := Suc (totalSwaps e), faults := False # fs\<rparr>)"
    using assms(1,6) by (simp add: loadCharacterBodyMap_def storageCall_def)
  have l2: "loadCharacterBodyMap b (e\<lparr>totalSwaps := Suc (totalSwaps e), faults := False # fs\<rparr>)
      = (Inr (bodyMaps e b), ?e2)"
    using assms(2) by (simp add: loadCharacterBodyMap_def storageCall_def)
  have "performSwapOperation a b g e = (Inr r, e4\<lparr>successfulSwaps := successfulSwaps e4 + 1\<rparr>)"
    using assms(1,2,3,5) gne
    by (simp add: performSwapOperation_def Let_def gm zm assms(4) getGarmentById_zones[OF assms(4)]
        l1 l2 cv v ex)
  moreover have "bodyMaps e3 = bodyMaps e \<and> faults e3 = fs \<and> same_control e e3"
    by (simp add: e3 same_control_def)
  ultimately show ?thesis using ex by (intro exI[of _ e3]) simp
qed

lemma executeSwap_run:
  assumes "faults e = False # False # fs" "a \<noteq> []" "b \<noteq> []"
    "\<forall>h sd. reciprocalSwapHandler e = Some h \<longrightarrow> h sd"
    "cloneBodyMapZones (bodyMaps e a) zs = Inr oa" "cloneBodyMapZones (bodyMaps e b) zs = Inr ob"
  shows "\<exists>r e' e1. executeSwap a b zs g e = (r, e')
     \<and> sr_success r \<and> sr_error r = None \<and> sr_zones r = Some zs
     \<and> sr_results r = fst (applyZoneSwaps a b zs e1)
     \<and> bodyMaps e' = bodyMaps (snd (applyZoneSwaps a b zs e1))
     \<and> bodyMaps e1 = bodyMaps e \<and> faults e1 = fs
     \<and> (\<exists>sd. map_of (activeSwaps e') (sr_swapId r) = Some sd \<and> sd_status sd = Active)"
proof -
  let ?e1 = "e\<lparr>swapCounter := Suc (swapCounter e), faults := fs\<rparr>"
  have h: "reciprocalSwapHandler (snd (applyZoneSwaps a b zs ?e1)) = reciprocalSwapHandler e"
    using applyZoneSwaps_control[of ?e1 a b zs] by (simp add: same_control_def)
  obtain rs e2 where z: "applyZoneSwaps a b zs ?e1 = (rs, e2)"
    by (cases "applyZoneSwaps a b zs ?e1") auto
  with h have h2: "reciprocalSwapHandler e2 = reciprocalSwapHandler e" by simp
  have nothrow: "\<not> (case reciprocalSwapHandler e2 of None \<Rightarrow> False | Some handler \<Rightarrow> \<not> handler sd)"
    for sd
  proof (cases "reciprocalSwapHandler e")
    case None
    with h2 show ?thesis by simp
  next
    case (Some handler)
    from assms(4) Some have "handler sd" by blast
    with h2 Some show ?thesis by simp
  qed
  have "\<exists>r e'. executeSwap a b zs g e = (r, e')
     \<and> sr_success r \<and> sr_error r = None \<and> sr_zones r = Some zs
     \<and> sr_results r = rs \<and> bodyMaps e' = bodyMaps e2
     \<and> (\<exists>sd. map_of (activeSwaps e') (sr_swapId r) = Some sd \<and> sd_status sd = Active)"
    using assms(1,2,3,5,6) z nothrow
    by (simp add: executeSwap_def executeSwapTry_def Let_def loadCharacterBodyMap_def
        storageCall_def update_conv')
  then obtain r e' where "executeSwap a b zs g e = (r, e')"
     "sr_success r" "sr_error r = None" "sr_zones r = Some zs"
     "sr_results r = rs" "bodyMaps e' = bodyMaps e2"
     "\<exists>sd. map_of (activeSwaps e') (sr_swapId r) = Some sd \<and> sd_status sd = Active"
    by blast
  with z show ?thesis by (intro exI[of _ r] exI[of _ e'] exI[of _ ?e1]) simp
qed

lemma list_all_map_True: "list_all P xs \<Longrightarrow> map P xs = replicate (length xs) True"
  by (induction xs) auto

text \<open>
  C3, as the code has it. Let the validation step let the swap through, let the reciprocal
  handler, if there is one, not throw, let no zone of the list read as a function on
  either body map (the snapshot of such a zone throws, see below), let the zones before \<open>z\<close>
  be exchanged without a fault and let one of the four storage calls of the exchange of \<open>z\<close>
  throw. \<open>applyZoneSwap\<close> catches the error:
  \<open>performSwap\<close> still returns a result with \<open>success = true\<close> and the whole zone list, the
  zone results are successes without an error for the zones before \<open>z\<close> and a failure that
  carries the error of the storage for \<open>z\<close>, the zones after \<open>z\<close> are still attempted, the
  zones before \<open>z\<close> stay exchanged, and the swap is recorded as an active swap.
\<close>

theorem performSwap_partial_failure:
  assumes ready: "isReady e"
    and ids: "a \<noteq> []" "b \<noteq> []" "a \<noteq> b"
    and garm: "getGarmentById g e = Inr garm"
    and passes: "fst (checkValidation (bodyMaps e a) (bodyMaps e b) (g_zones garm) e) = Inr ()"
    and handler: "\<forall>h sd. reciprocalSwapHandler e = Some h \<longrightarrow> h sd"
    and zs: "g_zones garm = pre @ z # post"
    and d: "distinct (pre @ z # post)"
    and maps: "bodyMaps e a = Some A" "bodyMaps e b = Some B"
    and nofun: "\<forall>p\<in>set (pre @ z # post). A p \<noteq> Some ZFunction \<and> B p \<noteq> Some ZFunction"
    and fs: "faults e = replicate (4 + 4 * length pre + k) False @ True # rest"
    and k: "k < 4"
  shows "\<exists>r e'. performSwap a b g e = (Inr (Some r), e')
     \<and> sr_success r \<and> sr_error r = None \<and> sr_zones r = Some (pre @ z # post)
     \<and> map zr_zone (sr_results r) = pre @ z # post
     \<and> map zr_success (take (Suc (length pre)) (sr_results r))
         = replicate (length pre) True @ [False]
     \<and> map zr_error (take (Suc (length pre)) (sr_results r))
         = replicate (length pre) None @ [Some StorageFailure]
     \<and> (\<exists>A' B'. bodyMaps e' a = Some A' \<and> bodyMaps e' b = Some B'
           \<and> (\<forall>p. p \<in> set pre \<longrightarrow> A' p = B p \<and> B' p = A p))
     \<and> (\<exists>sd. map_of (activeSwaps e') (sr_swapId r) = Some sd \<and> sd_status sd = Active)"
proof -
  let ?zs = "pre @ z # post"
  let ?f4 = "replicate (4 * length pre) False @ (replicate k False @ True # rest)"
  have f0: "faults e = False # False # False # False # ?f4"
    unfolding fs by (simp add: replicate_add eval_nat_numeral)
  from zs have zne: "g_zones garm \<noteq> []" by simp
  from performSwapOperation_run[OF ids garm zne f0 passes] obtain e3 where
    op: "performSwapOperation a b g e =
       (Inr (fst (executeSwap a b ?zs garm e3)),
        (snd (executeSwap a b ?zs garm e3))
          \<lparr>successfulSwaps := successfulSwaps (snd (executeSwap a b ?zs garm e3)) + 1\<rparr>)"
    and e3: "bodyMaps e3 = bodyMaps e" "faults e3 = False # False # ?f4" "same_control e e3"
    unfolding zs by blast
  have h3: "\<forall>h sd. reciprocalSwapHandler e3 = Some h \<longrightarrow> h sd"
    using e3(3) handler by (simp add: same_control_def)
  from nofun have "\<forall>p\<in>set ?zs. A p \<noteq> Some ZFunction" "\<forall>p\<in>set ?zs. B p \<noteq> Some ZFunction"
    by blast+
  from cloneBodyMapZones_Inr[OF this(1)] cloneBodyMapZones_Inr[OF this(2)] maps e3(1)
  obtain oa ob where
    cl: "cloneBodyMapZones (bodyMaps e3 a) ?zs = Inr oa"
        "cloneBodyMapZones (bodyMaps e3 b) ?zs = Inr ob"
    by auto
  from executeSwap_run[OF e3(2) ids(1,2) h3 cl, of garm] obtain r e4 e1 where
    ex: "executeSwap a b ?zs garm e3 = (r, e4)" and
    r: "sr_success r" "sr_error r = None" "sr_zones r = Some ?zs"
       "sr_results r = fst (applyZoneSwaps a b ?zs e1)" and
    e4: "bodyMaps e4 = bodyMaps (snd (applyZoneSwaps a b ?zs e1))" and
    e1: "bodyMaps e1 = bodyMaps e3" "faults e1 = ?f4" and
    act: "\<exists>sd. map_of (activeSwaps e4) (sr_swapId r) = Some sd \<and> sd_status sd = Active"
    by blast
  let ?e' = "e4\<lparr>successfulSwaps := successfulSwaps e4 + 1\<rparr>"
  have ps: "performSwap a b g e = (Inr (Some r), ?e')"
    using ready op ex by (simp add: performSwap_def safeOperation_def)
  have m1: "bodyMaps e1 a = Some A" "bodyMaps e1 b = Some B"
    using maps e1(1) e3(1) by simp_all
  let ?ep = "snd (applyZoneSwaps a b pre e1)"
  let ?Ap = "fst (swap_zones pre (A, B))" and ?Bp = "snd (swap_zones pre (A, B))"
  from applyZoneSwaps_no_fault[OF e1(2) ids m1] have
    pre_ok: "list_all zr_success (fst (applyZoneSwaps a b pre e1))" and
    pre_z: "map zr_zone (fst (applyZoneSwaps a b pre e1)) = pre" and
    ep: "?ep = e1\<lparr>faults := replicate k False @ True # rest,
              bodyMaps := (bodyMaps e1)(a \<mapsto> ?Ap, b \<mapsto> ?Bp)\<rparr>"
    by blast+
  have pl: "length (fst (applyZoneSwaps a b pre e1)) = length pre"
    using pre_z by (metis length_map)
  have mp: "bodyMaps ?ep a = Some ?Ap" "bodyMaps ?ep b = Some ?Bp"
    using ids(3) by (simp_all add: ep)
  have fp: "faults ?ep = replicate k False @ True # rest" by (simp add: ep)
  have zfail: "fst (applyZoneSwap a b z ?ep) = zoneFailure z StorageFailure"
    by (rule applyZoneSwap_fault[OF fp k ids(1,2)]) (simp_all add: mp)
  have res: "sr_results r = fst (applyZoneSwaps a b pre e1)
       @ fst (applyZoneSwap a b z ?ep)
       # fst (applyZoneSwaps a b post (snd (applyZoneSwap a b z ?ep)))"
    by (simp add: r(4) applyZoneSwaps_append split: prod.splits)
  have flags: "map zr_success (take (Suc (length pre)) (sr_results r))
         = replicate (length pre) True @ [False]"
    using list_all_map_True[OF pre_ok] pl
    by (simp add: res zfail zoneFailure_def)
  have errors: "map zr_error (take (Suc (length pre)) (sr_results r))
         = replicate (length pre) None @ [Some StorageFailure]"
    using applyZoneSwaps_errors[OF pre_ok] pl
    by (simp add: res zfail zoneFailure_def)
  have zones: "map zr_zone (sr_results r) = ?zs"
    by (simp add: r(4) applyZoneSwaps_zones)
  have fin: "snd (applyZoneSwaps a b ?zs e1) = snd (applyZoneSwaps a b (z # post) ?ep)"
    by (simp add: applyZoneSwaps_append)
  from applyZoneSwaps_frame[OF mp ids(3), of "z # post"] obtain A' B' where
    fr: "bodyMaps (snd (applyZoneSwaps a b (z # post) ?ep)) a = Some A'"
        "bodyMaps (snd (applyZoneSwaps a b (z # post) ?ep)) b = Some B'"
        "\<forall>p. p \<notin> set (z # post) \<longrightarrow> A' p = ?Ap p \<and> B' p = ?Bp p"
    by blast
  from d have dp: "distinct pre" and disj: "\<forall>p. p \<in> set pre \<longrightarrow> p \<notin> set (z # post)"
    by auto
  have swapped: "\<forall>p. p \<in> set pre \<longrightarrow> A' p = B p \<and> B' p = A p"
    using fr(3) disj swap_zones_distinct[OF dp, of A B] by simp
  have store: "\<exists>A' B'. bodyMaps ?e' a = Some A' \<and> bodyMaps ?e' b = Some B'
           \<and> (\<forall>p. p \<in> set pre \<longrightarrow> A' p = B p \<and> B' p = A p)"
    using fr(1,2) swapped by (simp add: e4 fin)
  have act': "\<exists>sd. map_of (activeSwaps ?e') (sr_swapId r) = Some sd \<and> sd_status sd = Active"
    using act by simp
  from ps r(1,2,3) zones flags errors store act' show ?thesis by blast
qed

text \<open>
  The other case. When a zone of the list reads as a function on one of the body maps, as
  \<open>constructor\<close> or \<open>toString\<close> do on a plain object without such a property, the snapshot
  throws inside the \<open>try\<close> of \<open>executeSwap\<close>: the result has \<open>success = false\<close> and no zone
  list, no zone is exchanged and the swap is not recorded.
\<close>

lemma executeSwap_clone_failure:
  assumes f: "faults e = False # False # fs" and ids: "a \<noteq> []" "b \<noteq> []"
    and maps: "bodyMaps e a = Some A" "bodyMaps e b = Some B"
    and z: "z \<in> set zs" and fn: "A z = Some ZFunction \<or> B z = Some ZFunction"
  shows "\<not> sr_success (fst (executeSwap a b zs g e))
     \<and> sr_error (fst (executeSwap a b zs g e)) = Some JsonSyntaxError
     \<and> sr_zones (fst (executeSwap a b zs g e)) = None
     \<and> sr_results (fst (executeSwap a b zs g e)) = []
     \<and> bodyMaps (snd (executeSwap a b zs g e)) = bodyMaps e
     \<and> activeSwaps (snd (executeSwap a b zs g e)) = activeSwaps e
     \<and> swapHistory (snd (executeSwap a b zs g e)) = swapHistory e
     \<and> failedSwaps (snd (executeSwap a b zs g e)) = failedSwaps e + 1"
proof -
  have "cloneBodyMapZones (Some A) zs = Inl JsonSyntaxError
      \<or> (\<exists>oa. cloneBodyMapZones (Some A) zs = Inr oa
            \<and> cloneBodyMapZones (Some B) zs = Inl JsonSyntaxError)"
  proof (cases "cloneBodyMapZones (Some A) zs")
    case (Inl err)
    with cloneBodyMapZones_Inl[OF Inl] show ?thesis by simp
  next
    case (Inr oa)
    with cloneBodyMapZones_function[of z zs A] z fn have "B z = Some ZFunction" by auto
    with cloneBodyMapZones_function[of z zs B] z Inr show ?thesis by simp
  qed
  then show ?thesis
    using f ids maps
    by (auto simp: executeSwap_def executeSwapTry_def Let_def loadCharacterBodyMap_def
        storageCall_def handleError_def)
qed

lemma checkValidation_same:
  "checkValidation sm tm zs e = (r, e') \<Longrightarrow>
     bodyMaps e' = bodyMaps e \<and> faults e' = faults e \<and> same_control e e'"
  using checkValidation_fields[of sm tm zs e]
  by (simp add: same_control_def)

lemma performSwapOperation_Inl:
  assumes "performSwapOperation a b g e = (Inl err, e1)"
  shows "bodyMaps e1 = bodyMaps e \<and> same_control e e1"
proof -
  have sc: "same_control e (e\<lparr>totalSwaps := n, faults := fs\<rparr>)" for n fs
    by (simp add: same_control_def)
  have sc0: "same_control e (e\<lparr>totalSwaps := n\<rparr>)" for n
    by (simp add: same_control_def)
  from assms show ?thesis
    unfolding performSwapOperation_def Let_def
    apply (simp split: if_splits sum.splits prod.splits add: sc0)
    apply (auto dest!: load_ok load_err checkValidation_same simp: same_control_def)
    done
qed

lemma validateSwap_validator:
  "bodyMapValidator e' = bodyMapValidator e \<Longrightarrow>
     fst (validateSwap sm tm zs e') = fst (validateSwap sm tm zs e)"
  by (simp add: validateSwap_def split: option.splits)

lemma checkValidation_strict:
  assumes "autoValidation e" "validateTransformations e" "\<not> allowPartialTransformations e"
    "\<not> v_valid (fst (validateSwap sm tm zs e))"
  shows "\<exists>errs. fst (checkValidation sm tm zs e) = Inl (ValidationFailed errs)"
  using assms
  by (auto simp: checkValidation_def validateSwap_def handleError_def Let_def
      split: prod.splits option.splits)

lemma performSwapOperation_Inr_validation:
  assumes "performSwapOperation a b g e = (Inr r, e')"
  shows "\<exists>garm. getGarmentById g e = Inr garm
     \<and> fst (checkValidation (bodyMaps e a) (bodyMaps e b) (g_zones garm)
              (e\<lparr>totalSwaps := Suc (totalSwaps e), faults := drop 2 (faults e)\<rparr>)) = Inr ()"
proof -
  have gm: "getGarmentById g (e\<lparr>totalSwaps := n\<rparr>) = getGarmentById g e" for n
    by (rule getGarmentById_mapper) simp
  have zm: "getZonesForGarment t (e\<lparr>totalSwaps := n\<rparr>) = getZonesForGarment t e" for t n
    by (rule getZonesForGarment_mapper) simp
  let ?e0 = "e\<lparr>totalSwaps := Suc (totalSwaps e)\<rparr>"
  from assms have ne: "a \<noteq> []" "b \<noteq> []" "a \<noteq> b"
    by (auto simp: performSwapOperation_def Let_def split: if_splits)
  from assms ne obtain garm where g: "getGarmentById g e = Inr garm"
    by (auto simp: performSwapOperation_def Let_def gm split: if_splits sum.splits)
  note zs = getGarmentById_zones[OF g]
  from assms ne g zs obtain sm e1 where l1: "loadCharacterBodyMap a ?e0 = (Inr sm, e1)"
    by (auto simp: performSwapOperation_def Let_def gm zm split: if_splits sum.splits prod.splits)
  from assms ne g zs l1 obtain tm e2 where l2: "loadCharacterBodyMap b e1 = (Inr tm, e2)"
    by (auto simp: performSwapOperation_def Let_def gm zm split: if_splits sum.splits prod.splits)
  from load_ok[OF l1] load_ok[OF l2]
  have e2: "e2 = e\<lparr>totalSwaps := Suc (totalSwaps e), faults := drop 2 (faults e)\<rparr>"
    and sm: "sm = bodyMaps e a" and tm: "tm = bodyMaps e b"
    by (simp_all add: eval_nat_numeral)
  from assms ne g zs l1 l2 have "fst (checkValidation sm tm (g_zones garm) e2) = Inr ()"
    by (auto simp: performSwapOperation_def Let_def gm zm split: if_splits sum.splits prod.splits)
  with g show ?thesis unfolding e2 sm tm by blast
qed

text \<open>
  C4. With validation on and partial transformations not allowed, a swap that
  \<open>validateSwap\<close> reports invalid is aborted: \<open>performSwap\<close> returns null, no body map in the
  store is changed, the active set and the swap history are as before, and no swap id is
  used up.
\<close>

theorem performSwap_strict_validation_aborts:
  assumes ready: "isReady e"
    and strict: "autoValidation e" "validateTransformations e" "\<not> allowPartialTransformations e"
    and invalid: "\<And>garm. getGarmentById g e = Inr garm \<Longrightarrow>
        \<not> v_valid (fst (validateSwap (bodyMaps e a) (bodyMaps e b) (g_zones garm) e))"
  shows "fst (performSwap a b g e) = Inr None
     \<and> bodyMaps (snd (performSwap a b g e)) = bodyMaps e
     \<and> activeSwaps (snd (performSwap a b g e)) = activeSwaps e
     \<and> swapHistory (snd (performSwap a b g e)) = swapHistory e
     \<and> swapCounter (snd (performSwap a b g e)) = swapCounter e"
proof -
  obtain res e1 where op: "performSwapOperation a b g e = (res, e1)"
    by (cases "performSwapOperation a b g e") auto
  have "\<exists>err. res = Inl err"
  proof (cases res)
    case (Inl err)
    then show ?thesis by blast
  next
    case (Inr r)
    let ?e2 = "e\<lparr>totalSwaps := Suc (totalSwaps e), faults := drop 2 (faults e)\<rparr>"
    from performSwapOperation_Inr_validation[OF op[unfolded Inr]] obtain garm where
      g: "getGarmentById g e = Inr garm" and
      cv: "fst (checkValidation (bodyMaps e a) (bodyMaps e b) (g_zones garm) ?e2) = Inr ()"
      by blast
    have "\<not> v_valid (fst (validateSwap (bodyMaps e a) (bodyMaps e b) (g_zones garm) ?e2))"
      using invalid[OF g] validateSwap_validator[of ?e2 e] by simp
    from checkValidation_strict[OF _ _ _ this] strict cv show ?thesis by simp
  qed
  then obtain err where res: "res = Inl err" by blast
  from performSwapOperation_Inl[OF op[unfolded res]]
  have f: "bodyMaps e1 = bodyMaps e" "same_control e e1" by simp_all
  have ps: "performSwap a b g e = (Inr None, handleError ''performSwap'' err False e1)"
    using ready op res by (simp add: performSwap_def safeOperation_def)
  show ?thesis using f by (simp add: ps same_control_def)
qed

text \<open>
  Both operations test the readiness of the engine before they enter \<open>safeOperation\<close>: on an
  engine that is not ready they throw, and nothing is logged.
\<close>

lemma performSwap_not_ready:
  "\<not> isReady e \<Longrightarrow> performSwap a b g e = (Inl EngineNotReady, e)"
  by (simp add: performSwap_def)

lemma reverseSwap_not_ready:
  "\<not> isReady e \<Longrightarrow> reverseSwap swapId e = (Inl EngineNotReady, e)"
  by (simp add: reverseSwap_def)

text \<open>
  C5, as the code has it. On a ready engine a failed precondition of \<open>performSwap\<close> (a missing
  parameter, equal source and target, a garment id that does not resolve, no zones for the
  garment) or of \<open>reverseSwap\<close> (an unknown swap id, a swap that is not active, a swap
  without snapshots) is caught by \<open>safeOperation\<close>: the caller gets null, and the error with
  its kind is appended to the error log of the module under the name of the operation.
\<close>

theorem precondition_failures_return_null:
  assumes ready: "isReady e"
  shows "(a = [] \<or> b = [] \<or> g = [] \<longrightarrow>
            performSwap a b g e =
              (Inr None, handleError ''performSwap'' MissingParameters False
                           (e\<lparr>totalSwaps := totalSwaps e + 1\<rparr>)))
       \<and> (a \<noteq> [] \<and> g \<noteq> [] \<and> a = b \<longrightarrow>
            performSwap a b g e =
              (Inr None, handleError ''performSwap'' SameCharacter False
                           (e\<lparr>totalSwaps := totalSwaps e + 1\<rparr>)))
       \<and> (\<forall>err. a \<noteq> [] \<and> b \<noteq> [] \<and> g \<noteq> [] \<and> a \<noteq> b \<and> getGarmentById g e = Inl err \<longrightarrow>
            performSwap a b g e =
              (Inr None, handleError ''performSwap'' err False
                           (e\<lparr>totalSwaps := totalSwaps e + 1\<rparr>)))
       \<and> (\<forall>garm. a \<noteq> [] \<and> b \<noteq> [] \<and> a \<noteq> b \<and> getGarmentById g e = Inr garm
                  \<and> g_zones garm = [] \<longrightarrow>
            performSwap a b g e =
              (Inr None, handleError ''performSwap'' (NoZonesFound (g_type garm)) False
                           (e\<lparr>totalSwaps := totalSwaps e + 1\<rparr>)))
       \<and> (map_of (activeSwaps e) sid = None \<longrightarrow>
            reverseSwap sid e =
              (Inr None, handleError ''reverseSwap'' (ActiveSwapNotFound sid) False e))
       \<and> (\<forall>sd. map_of (activeSwaps e) sid = Some sd \<and> sd_status sd \<noteq> Active \<longrightarrow>
            reverseSwap sid e =
              (Inr None, handleError ''reverseSwap'' (SwapNotActive sid (sd_status sd)) False e))
       \<and> (\<forall>sd. map_of (activeSwaps e) sid = Some sd \<and> sd_status sd = Active
                \<and> sd_originalStates sd = None \<longrightarrow>
            reverseSwap sid e =
              (Inr None, handleError ''reverseSwap'' (NoOriginalStates sid) False e))"
proof -
  have gm: "getGarmentById g (e\<lparr>totalSwaps := n\<rparr>) = getGarmentById g e" for n
    by (rule getGarmentById_mapper) simp
  have zm: "getZonesForGarment t (e\<lparr>totalSwaps := n\<rparr>) = getZonesForGarment t e" for t n
    by (rule getZonesForGarment_mapper) simp
  have p1: "a = [] \<or> b = [] \<or> g = [] \<longrightarrow>
            performSwap a b g e =
              (Inr None, handleError ''performSwap'' MissingParameters False
                           (e\<lparr>totalSwaps := totalSwaps e + 1\<rparr>))"
    using ready by (auto simp: performSwap_def safeOperation_def performSwapOperation_def Let_def)
  have p2: "a \<noteq> [] \<and> g \<noteq> [] \<and> a = b \<longrightarrow>
            performSwap a b g e =
              (Inr None, handleError ''performSwap'' SameCharacter False
                           (e\<lparr>totalSwaps := totalSwaps e + 1\<rparr>))"
    using ready by (auto simp: performSwap_def safeOperation_def performSwapOperation_def Let_def)
  have p3: "\<forall>err. a \<noteq> [] \<and> b \<noteq> [] \<and> g \<noteq> [] \<and> a \<noteq> b \<and> getGarmentById g e = Inl err \<longrightarrow>
            performSwap a b g e =
              (Inr None, handleError ''performSwap'' err False
                           (e\<lparr>totalSwaps := totalSwaps e + 1\<rparr>))"
    using ready
    by (auto simp: performSwap_def safeOperation_def performSwapOperation_def Let_def gm)
  have p4: "\<forall>garm. a \<noteq> [] \<and> b \<noteq> [] \<and> a \<noteq> b \<and> getGarmentById g e = Inr garm
                  \<and> g_zones garm = [] \<longrightarrow>
            performSwap a b g e =
              (Inr None, handleError ''performSwap'' (NoZonesFound (g_type garm)) False
                           (e\<lparr>totalSwaps := totalSwaps e + 1\<rparr>))"
  proof (intro allI impI)
    fix garm
    assume h: "a \<noteq> [] \<and> b \<noteq> [] \<and> a \<noteq> b \<and> getGarmentById g e = Inr garm \<and> g_zones garm = []"
    then have gne: "g \<noteq> []" by (auto simp: getGarmentById_def)
    from h have z: "getZonesForGarment (g_type garm) e = Inr []"
      using getGarmentById_zones[of g e garm] by simp
    show "performSwap a b g e =
              (Inr None, handleError ''performSwap'' (NoZonesFound (g_type garm)) False
                           (e\<lparr>totalSwaps := totalSwaps e + 1\<rparr>))"
      using ready h gne z
      by (simp add: performSwap_def safeOperation_def performSwapOperation_def Let_def gm zm)
  qed
  have r1: "map_of (activeSwaps e) sid = None \<longrightarrow>
            reverseSwap sid e =
              (Inr None, handleError ''reverseSwap'' (ActiveSwapNotFound sid) False e)"
    using ready by (simp add: reverseSwap_def safeOperation_def reverseSwapOperation_def)
  have r2: "\<forall>sd. map_of (activeSwaps e) sid = Some sd \<and> sd_status sd \<noteq> Active \<longrightarrow>
            reverseSwap sid e =
              (Inr None, handleError ''reverseSwap'' (SwapNotActive sid (sd_status sd)) False e)"
    using ready by (simp add: reverseSwap_def safeOperation_def reverseSwapOperation_def)
  have r3: "\<forall>sd. map_of (activeSwaps e) sid = Some sd \<and> sd_status sd = Active
                \<and> sd_originalStates sd = None \<longrightarrow>
            reverseSwap sid e =
              (Inr None, handleError ''reverseSwap'' (NoOriginalStates sid) False e)"
    using ready by (simp add: reverseSwap_def safeOperation_def reverseSwapOperation_def)
  from p1 p2 p3 p4 r1 r2 r3 show ?thesis by blast
qed

lemma list_all_update:
  "list_all P al \<Longrightarrow> P (k, v) \<Longrightarrow> list_all P (AList.update k v al)"
  by (induction al) auto

lemma list_all_delete: "list_all P al \<Longrightarrow> list_all P (AList.delete k al)"
  by (induction al) auto

lemma map_of_delete_None: "map_of (AList.delete k al) k = None"
  by (simp add: delete_conv')

lemma executeSwapTry_active:
  assumes "executeSwapTry sd e = (res, e1)"
  shows "(\<exists>err. res = Inl err \<and> same_control e e1)
       \<or> (\<exists>r sd1. res = Inr r \<and> sr_success r \<and> sr_swapId r = sd_id sd
              \<and> sd_status sd1 = sd_status sd
              \<and> activeSwaps e1 = AList.update (sd_id sd) sd1 (activeSwaps e))"
proof -
  obtain x1 e2 where l1: "loadCharacterBodyMap (sd_sourceCharId sd) e = (x1, e2)"
    by (cases "loadCharacterBodyMap (sd_sourceCharId sd) e") auto
  have c2: "same_control e e2" using load_control[of e "sd_sourceCharId sd"] l1 by simp
  show ?thesis
  proof (cases x1)
    case (Inl err)
    with assms l1 have "res = Inl err" "e1 = e2" by (simp_all add: executeSwapTry_def)
    with c2 show ?thesis by blast
  next
    case (Inr sm)
    obtain x2 e3 where l2: "loadCharacterBodyMap (sd_targetCharId sd) e2 = (x2, e3)"
      by (cases "loadCharacterBodyMap (sd_targetCharId sd) e2") auto
    have c3: "same_control e e3"
      using load_control[of e2 "sd_targetCharId sd"] l2 c2 same_control_trans by fastforce
    show ?thesis
    proof (cases x2)
      case (Inl err)
      with assms l1 l2 \<open>x1 = Inr sm\<close> have "res = Inl err" "e1 = e3"
        by (simp_all add: executeSwapTry_def)
      with c3 show ?thesis by blast
    next
      case (Inr tm)
      note ld = l1 l2 \<open>x1 = Inr sm\<close> \<open>x2 = Inr tm\<close>
      show ?thesis
      proof (cases "cloneBodyMapZones sm (sd_zones sd)")
        case (Inl err)
        with assms ld have "res = Inl err" "e1 = e3" by (simp_all add: executeSwapTry_def)
        with c3 show ?thesis by blast
      next
        case (Inr oa)
        note ca = this
        show ?thesis
        proof (cases "cloneBodyMapZones tm (sd_zones sd)")
          case (Inl err)
          with assms ld ca have "res = Inl err" "e1 = e3" by (simp_all add: executeSwapTry_def)
          with c3 show ?thesis by blast
        next
          case (Inr ob)
          note cb = this
          let ?sd1 = "sd\<lparr>sd_originalStates := Some (oa, ob)\<rparr>"
          obtain rs e4 where z: "applyZoneSwaps (sd_sourceCharId sd) (sd_targetCharId sd)
              (sd_zones sd) e3 = (rs, e4)"
            by (cases "applyZoneSwaps (sd_sourceCharId sd) (sd_targetCharId sd) (sd_zones sd) e3")
               auto
          have c4: "same_control e e4"
            using applyZoneSwaps_control[of e3 "sd_sourceCharId sd" "sd_targetCharId sd"
                "sd_zones sd"] z c3 same_control_trans by fastforce
          let ?C = "sd_reciprocal sd \<and> (case reciprocalSwapHandler e4 of
                                    None \<Rightarrow> False | Some handler \<Rightarrow> \<not> handler ?sd1)"
          show ?thesis
          proof (cases ?C)
            case True
            with assms ld ca cb z
            have "res = Inl ReciprocalFailure" "e1 = e4"
              by (simp_all add: executeSwapTry_def Let_def)
            with c4 show ?thesis by blast
          next
            case False
            with assms ld ca cb z
            have "\<exists>r. res = Inr r \<and> sr_success r \<and> sr_swapId r = sd_id sd"
              and "activeSwaps e1 = AList.update (sd_id sd) ?sd1 (activeSwaps e4)"
              by (auto simp: executeSwapTry_def Let_def)
            moreover have "activeSwaps e4 = activeSwaps e"
              using c4 by (simp add: same_control_def)
            moreover have "sd_status ?sd1 = sd_status sd" by simp
            ultimately show ?thesis by metis
          qed
        qed
      qed
    qed
  qed
qed

lemma executeSwap_active:
  assumes "executeSwap a b zs g e = (r, e')"
  shows "(\<not> sr_success r \<and> activeSwaps e' = activeSwaps e)
       \<or> (sr_success r \<and> (\<exists>sd. sd_status sd = Active
              \<and> activeSwaps e' = AList.update (sr_swapId r) sd (activeSwaps e)))"
proof -
  let ?e0 = "e\<lparr>swapCounter := swapCounter e + 1\<rparr>"
  let ?sd = "\<lparr>sd_id = (clock ?e0, swapCounter ?e0), sd_sourceCharId = a,
                      sd_targetCharId = b, sd_zones = zs, sd_garment = g,
                      sd_timestamp = clock ?e0, sd_status = Active,
                      sd_reciprocal = (reciprocalTransformations ?e0 \<and> bidirectionalSwaps ?e0),
                      sd_originalStates = None, sd_reversedAt = None\<rparr>"
  obtain res e1 where t: "executeSwapTry ?sd ?e0 = (res, e1)"
    by (cases "executeSwapTry ?sd ?e0") auto
  from executeSwapTry_active[OF t] show ?thesis
  proof
    assume "\<exists>err. res = Inl err \<and> same_control ?e0 e1"
    then obtain err where res: "res = Inl err" and sc: "same_control ?e0 e1" by blast
    from assms t res have "\<not> sr_success r"
      "e' = handleError ''executeSwap'' err False (e1\<lparr>failedSwaps := failedSwaps e1 + 1\<rparr>)"
      by (auto simp: executeSwap_def Let_def)
    with sc show ?thesis by (simp add: same_control_def)
  next
    assume "\<exists>r sd1. res = Inr r \<and> sr_success r \<and> sr_swapId r = sd_id ?sd
              \<and> sd_status sd1 = sd_status ?sd
              \<and> activeSwaps e1 = AList.update (sd_id ?sd) sd1 (activeSwaps ?e0)"
    then obtain r' sd1 where res: "res = Inr r'" and ok: "sr_success r'"
      and id: "sr_swapId r' = sd_id ?sd" and st: "sd_status sd1 = sd_status ?sd"
      and act: "activeSwaps e1 = AList.update (sd_id ?sd) sd1 (activeSwaps ?e0)"
      by blast
    from assms t res have rr: "r = r'" "e' = e1" by (auto simp: executeSwap_def Let_def)
    have "sd_status sd1 = Active" using st by simp
    moreover have "activeSwaps e' = AList.update (sr_swapId r) sd1 (activeSwaps e)"
      using act id rr by simp
    ultimately show ?thesis using ok rr by blast
  qed
qed

lemma handleError_active_set_ok [simp]:
  "active_set_ok (handleError c err False e) = active_set_ok e"
  by (simp add: active_set_ok_def)

lemma performSwap_active_set_ok:
  assumes "active_set_ok e"
  shows "active_set_ok (snd (performSwap a b g e))"
proof (cases "isReady e")
  case False
  with assms show ?thesis by (simp add: performSwap_def)
next
  case True
  obtain res e1 where op: "performSwapOperation a b g e = (res, e1)"
    by (cases "performSwapOperation a b g e") auto
  show ?thesis
  proof (cases res)
    case (Inl err)
    from performSwapOperation_Inl[OF op[unfolded Inl]] have "activeSwaps e1 = activeSwaps e"
      by (simp add: same_control_def)
    with assms have "active_set_ok e1" by (simp add: active_set_ok_def)
    then show ?thesis using True op Inl by (simp add: performSwap_def safeOperation_def)
  next
    case (Inr r)
    from performSwapOperation_Inr[OF op[unfolded Inr]] obtain garm zs e3 e4 where
      ex: "executeSwap a b zs garm e3 = (r, e4)" and
      e1: "e1 = e4\<lparr>successfulSwaps := successfulSwaps e4 + 1\<rparr>" and
      a3: "activeSwaps e3 = activeSwaps e"
      by blast
    from executeSwap_active[OF ex] assms a3 have "active_set_ok e4"
      by (auto simp: active_set_ok_def intro!: list_all_update)
    then have "active_set_ok e1" by (simp add: e1 active_set_ok_def)
    then show ?thesis using True op Inr by (simp add: performSwap_def safeOperation_def)
  qed
qed

lemma reverseSwapTry_active:
  assumes "reverseSwapTry sid sd os ot e = (res, e1)"
  shows "(\<exists>err. res = Inl err \<and> same_control e e1)
       \<or> (\<exists>r. res = Inr r \<and> rr_success r
              \<and> activeSwaps e1 = AList.delete sid (activeSwaps e))"
proof -
  obtain x1 e2 where l1: "loadCharacterBodyMap (sd_sourceCharId sd) e = (x1, e2)"
    by (cases "loadCharacterBodyMap (sd_sourceCharId sd) e") auto
  have c2: "same_control e e2" using load_control[of e "sd_sourceCharId sd"] l1 by simp
  show ?thesis
  proof (cases x1)
    case (Inl err)
    with assms l1 have "res = Inl err" "e1 = e2" by (simp_all add: reverseSwapTry_def)
    with c2 show ?thesis by blast
  next
    case (Inr sm)
    note x1 = this
    obtain x2 e3 where l2: "loadCharacterBodyMap (sd_targetCharId sd) e2 = (x2, e3)"
      by (cases "loadCharacterBodyMap (sd_targetCharId sd) e2") auto
    have c3: "same_control e e3"
      using load_control[of e2 "sd_targetCharId sd"] l2 c2 same_control_trans by fastforce
    show ?thesis
    proof (cases x2)
      case (Inl err)
      with assms l1 l2 x1 have "res = Inl err" "e1 = e3"
        by (simp_all add: reverseSwapTry_def)
      with c3 show ?thesis by blast
    next
      case (Inr tm)
      note x2 = this
      obtain x3 e4 where s1: "saveCharacterBodyMap (sd_sourceCharId sd) (restoreZones sm os) e3 = (x3, e4)"
        by (cases "saveCharacterBodyMap (sd_sourceCharId sd) (restoreZones sm os) e3") auto
      have c4: "same_control e e4"
        using save_control[of e3 "sd_sourceCharId sd" "restoreZones sm os"] s1 c3 same_control_trans
        by fastforce
      show ?thesis
      proof (cases x3)
        case (Inl err)
        with assms l1 l2 s1 x1 x2 have "res = Inl err" "e1 = e4"
          by (simp_all add: reverseSwapTry_def)
        with c4 show ?thesis by blast
      next
        case (Inr ok3)
        note x3 = this
        obtain x4 e5 where s2: "saveCharacterBodyMap (sd_targetCharId sd) (restoreZones tm ot) e4 = (x4, e5)"
          by (cases "saveCharacterBodyMap (sd_targetCharId sd) (restoreZones tm ot) e4") auto
        have c5: "same_control e e5"
          using save_control[of e4 "sd_targetCharId sd" "restoreZones tm ot"] s2 c4 same_control_trans
          by fastforce
        show ?thesis
        proof (cases x4)
          case (Inl err)
          with assms l1 l2 s1 s2 x1 x2 x3 have "res = Inl err" "e1 = e5"
            by (simp_all add: reverseSwapTry_def)
          with c5 show ?thesis by blast
        next
          case (Inr ok4)
          with assms l1 l2 s1 s2 x1 x2 x3
          have "\<exists>r. res = Inr r \<and> rr_success r"
            and "activeSwaps e1 = AList.delete sid (activeSwaps e5)"
            by (auto simp: reverseSwapTry_def Let_def updateHistoryEntry_def)
          moreover have "activeSwaps e5 = activeSwaps e" using c5 by (simp add: same_control_def)
          ultimately show ?thesis by auto
        qed
      qed
    qed
  qed
qed

lemma reverseSwap_active:
  "(activeSwaps (snd (reverseSwap sid e)) = activeSwaps e
      \<and> (\<forall>r. fst (reverseSwap sid e) = Inr (Some r) \<longrightarrow> \<not> rr_success r))
   \<or> activeSwaps (snd (reverseSwap sid e)) = AList.delete sid (activeSwaps e)"
proof (cases "isReady e")
  case False
  then show ?thesis by (simp add: reverseSwap_def)
next
  case True
  note ready = this
  show ?thesis
  proof (cases "map_of (activeSwaps e) sid")
    case None
    with ready show ?thesis
      by (simp add: reverseSwap_def safeOperation_def reverseSwapOperation_def)
  next
    case (Some sd)
    note sd = this
    show ?thesis
    proof (cases "sd_status sd = Active")
      case False
      with ready sd show ?thesis
        by (simp add: reverseSwap_def safeOperation_def reverseSwapOperation_def)
    next
      case True
      note act = this
      show ?thesis
      proof (cases "sd_originalStates sd")
        case None
        with ready sd act show ?thesis
          by (simp add: reverseSwap_def safeOperation_def reverseSwapOperation_def)
      next
        case (Some st)
        obtain os ot where st: "st = (os, ot)" by (cases st) auto
        obtain res e1 where t: "reverseSwapTry sid sd os ot e = (res, e1)"
          by (cases "reverseSwapTry sid sd os ot e") auto
        from reverseSwapTry_active[OF t] show ?thesis
        proof
          assume "\<exists>err. res = Inl err \<and> same_control e e1"
          then obtain err where res: "res = Inl err" and sc: "same_control e e1" by blast
          have "reverseSwap sid e =
              (Inr (Some \<lparr>rr_success = False, rr_swapId = sid, rr_reversedAt = None,
                               rr_error = Some err\<rparr>),
               handleError ''reverseSwap'' err False e1)"
            using ready sd act Some st t res
            by (simp add: reverseSwap_def safeOperation_def reverseSwapOperation_def)
          with sc show ?thesis by (simp add: same_control_def)
        next
          assume "\<exists>r. res = Inr r \<and> rr_success r
              \<and> activeSwaps e1 = AList.delete sid (activeSwaps e)"
          then obtain r where res: "res = Inr r"
            and d: "activeSwaps e1 = AList.delete sid (activeSwaps e)" by blast
          have "reverseSwap sid e = (Inr (Some r), e1)"
            using ready sd act Some st t res
            by (simp add: reverseSwap_def safeOperation_def reverseSwapOperation_def)
          with d show ?thesis by simp
        qed
      qed
    qed
  qed
qed

lemma reverseSwap_active_set_ok:
  "active_set_ok e \<Longrightarrow> active_set_ok (snd (reverseSwap sid e))"
  using reverseSwap_active[of sid e]
  by (auto simp: active_set_ok_def intro: list_all_delete)

lemma performCleanup_active_set_ok:
  "active_set_ok e \<Longrightarrow> active_set_ok (performCleanup e)"
  by (simp add: active_set_ok_def performCleanup_def list_all_iff)

lemma reachable_active_set_ok: "reachable e \<Longrightarrow> active_set_ok e"
proof (induction rule: reachable.induct)
  case (init e)
  then show ?case by (simp add: active_set_ok_def)
next
  case (perform e a b g)
  then show ?case by (simp add: performSwap_active_set_ok)
next
  case (reverse e sid)
  then show ?case by (simp add: reverseSwap_active_set_ok)
next
  case (cleanup e)
  then show ?case by (simp add: performCleanup_active_set_ok)
next
  case (environment e e')
  then show ?case by (simp add: active_set_ok_def)
qed

text \<open>
  C10. In every state reached from an empty active set by \<open>performSwap\<close>, \<open>reverseSwap\<close> and
  \<open>performCleanup\<close>, with any change of the environment in between, every record of the
  active set has the status active. A swap whose execution fails is not added to the set,
  and a successful reversal removes the record from the set.
\<close>

theorem active_set_holds_active_swaps_only:
  assumes "reachable e"
  shows "active_set_ok e
     \<and> (\<forall>a b zs g. \<not> sr_success (fst (executeSwap a b zs g e))
           \<longrightarrow> activeSwaps (snd (executeSwap a b zs g e)) = activeSwaps e)
     \<and> (\<forall>sid r. fst (reverseSwap sid e) = Inr (Some r) \<and> rr_success r
           \<longrightarrow> map_of (activeSwaps (snd (reverseSwap sid e))) sid = None)"
proof (intro conjI allI impI)
  show "active_set_ok e" using assms by (rule reachable_active_set_ok)
next
  fix a b zs g
  assume f: "\<not> sr_success (fst (executeSwap a b zs g e))"
  obtain r e' where ex: "executeSwap a b zs g e = (r, e')"
    by (cases "executeSwap a b zs g e") auto
  from executeSwap_active[OF ex] f ex
  show "activeSwaps (snd (executeSwap a b zs g e)) = activeSwaps e" by simp
next
  fix sid r
  assume s: "fst (reverseSwap sid e) = Inr (Some r) \<and> rr_success r"
  with reverseSwap_active[of sid e]
  have "activeSwaps (snd (reverseSwap sid e)) = AList.delete sid (activeSwaps e)" by auto
  then show "map_of (activeSwaps (snd (reverseSwap sid e))) sid = None"
    by (simp add: map_of_delete_None)
qed

subsection \<open>The properties at concrete swaps\<close>

text \<open>The theorem of C1 at the swap of a shirt, zones chest and waist, between c1 and c2.\<close>

theorem performSwap_exchanges_zones_witness:
  "\<exists>A' B'. bodyMaps (snd (performSwap ''c1'' ''c2'' ''c1.3'' (engine_with store12 []))) ''c1''
              = Some A'
     \<and> bodyMaps (snd (performSwap ''c1'' ''c2'' ''c1.3'' (engine_with store12 []))) ''c2''
              = Some B'
     \<and> A' ''chest'' = Some (ZStr ''large'') \<and> B' ''chest'' = Some (ZStr ''flat'')
     \<and> A' ''waist'' = Some (ZStr ''wide'') \<and> B' ''waist'' = Some (ZStr ''slim'')
     \<and> A' ''hips'' = None \<and> B' ''hips'' = None"
proof -
  let ?e = "engine_with store12 []"
  let ?r = "\<lparr>sr_success = True, sr_swapId = (1000, 1),
                sr_zones = Some [''chest'', ''waist''],
                sr_results =
                  [\<lparr>zr_zone = ''chest'', zr_success = True,
                    zr_sourceData = Some (ZStr ''flat''), zr_targetData = Some (ZStr ''large''),
                    zr_error = None\<rparr>,
                   \<lparr>zr_zone = ''waist'', zr_success = True,
                    zr_sourceData = Some (ZStr ''slim''), zr_targetData = Some (ZStr ''wide''),
                    zr_error = None\<rparr>],
                sr_error = None, sr_timestamp = 1000\<rparr>"
  have "fst (performSwap ''c1'' ''c2'' ''c1.3'' ?e) = Inr (Some ?r)"
    by (simp add: engine_example_defs)
  then have run: "performSwap ''c1'' ''c2'' ''c1.3'' ?e
      = (Inr (Some ?r), snd (performSwap ''c1'' ''c2'' ''c1.3'' ?e))"
    by (simp add: prod_eq_iff)
  have pre: "bodyMaps ?e ''c1'' = Some body_c1" "bodyMaps ?e ''c2'' = Some body_c2"
    by (simp_all add: engine_with_def store12_def)
  from performSwap_exchanges_zones [OF run, of "[''chest'', ''waist'']"] pre
  obtain A' B' where
    "bodyMaps (snd (performSwap ''c1'' ''c2'' ''c1.3'' ?e)) ''c1'' = Some A'"
    "bodyMaps (snd (performSwap ''c1'' ''c2'' ''c1.3'' ?e)) ''c2'' = Some B'"
    "\<forall>z. A' z = (if z \<in> set [''chest'', ''waist''] then body_c2 z else body_c1 z)
       \<and> B' z = (if z \<in> set [''chest'', ''waist''] then body_c1 z else body_c2 z)"
    by auto
  then show ?thesis
    by (intro exI[of _ A'] exI[of _ B']) (simp add: body_c1_def body_c2_def plainObject_def inherited_def
         objectPrototypeMethods_def)
qed

text \<open>
  C1 as stated fails for a zone list that repeats a zone. With the zones chest, chest the
  swap succeeds in both zone results, and the second exchange undoes the first: c1 still
  has its own value at chest, not the value c2 had.
\<close>

theorem performSwap_duplicate_zone_counterexample:
  "fst (performSwap ''c1'' ''c2'' ''c1.0'' dup_engine) =
     Inr (Some \<lparr>sr_success = True, sr_swapId = (1000, 1),
                sr_zones = Some [''chest'', ''chest''],
                sr_results =
                  [\<lparr>zr_zone = ''chest'', zr_success = True,
                    zr_sourceData = Some (ZStr ''flat''), zr_targetData = Some (ZStr ''large''),
                    zr_error = None\<rparr>,
                   \<lparr>zr_zone = ''chest'', zr_success = True,
                    zr_sourceData = Some (ZStr ''large''), zr_targetData = Some (ZStr ''flat''),
                    zr_error = None\<rparr>],
                sr_error = None, sr_timestamp = 1000\<rparr>)
   \<and> zone_of dup_engine ''c2'' ''chest'' = Some (ZStr ''large'')
   \<and> zone_of (snd (performSwap ''c1'' ''c2'' ''c1.0'' dup_engine)) ''c1'' ''chest''
       = Some (ZStr ''flat'')"
  by (simp add: engine_example_defs)

text \<open>
  C2. The character c1 has no chest zone before the swap, so \<open>cloneBodyMapZones\<close> leaves the
  zone out of its snapshot. The swap gives c1 the chest of c2, and the reversal, which
  spreads the snapshot over the current body map, reports success and leaves that value in
  place: c1 is not back in its state before the swap.
\<close>

theorem reverseSwap_keeps_zone_absent_before_swap:
  "zone_of (engine_with store_missing_zone []) ''c1'' ''chest'' = None
   \<and> zone_of (engine_with store_missing_zone []) ''c2'' ''chest'' = Some (ZStr ''large'')
   \<and> map_sum id (map_option sr_success)
        (fst (performSwap ''c1'' ''c2'' ''c1.0'' (engine_with store_missing_zone [])))
       = Inr (Some True)
   \<and> zone_of (snd (performSwap ''c1'' ''c2'' ''c1.0'' (engine_with store_missing_zone [])))
        ''c1'' ''chest'' = Some (ZStr ''large'')
   \<and> fst (reverseSwap (1000, 1)
        (snd (performSwap ''c1'' ''c2'' ''c1.0'' (engine_with store_missing_zone []))))
       = Inr (Some \<lparr>rr_success = True, rr_swapId = (1000, 1), rr_reversedAt = Some 1000,
                    rr_error = None\<rparr>)
   \<and> zone_of (snd (reverseSwap (1000, 1)
        (snd (performSwap ''c1'' ''c2'' ''c1.0'' (engine_with store_missing_zone [])))))
        ''c1'' ''chest'' = Some (ZStr ''large'')
   \<and> zone_of (snd (reverseSwap (1000, 1)
        (snd (performSwap ''c1'' ''c2'' ''c1.0'' (engine_with store_missing_zone [])))))
        ''c2'' ''chest'' = Some (ZStr ''large'')"
  by (simp add: engine_example_defs)

text \<open>
  The theorem of C3 at the swap of a shirt in which the first storage call of the exchange
  of waist throws.
\<close>

theorem performSwap_partial_failure_witness:
  "\<exists>r e'. performSwap ''c1'' ''c2'' ''c1.3'' (engine_with store12 (replicate 8 False @ [True]))
             = (Inr (Some r), e')
     \<and> sr_success r \<and> sr_zones r = Some [''chest'', ''waist'']
     \<and> map zr_success (take 2 (sr_results r)) = [True, False]
     \<and> map zr_error (take 2 (sr_results r)) = [None, Some StorageFailure]
     \<and> (\<exists>A' B'. bodyMaps e' ''c1'' = Some A' \<and> bodyMaps e' ''c2'' = Some B'
           \<and> A' ''chest'' = Some (ZStr ''large'') \<and> B' ''chest'' = Some (ZStr ''flat''))"
proof -
  let ?e = "engine_with store12 (replicate 8 False @ [True])"
  have ready: "isReady ?e" by (simp add: engine_with_def isReady_def)
  have passes: "fst (checkValidation (bodyMaps ?e ''c1'') (bodyMaps ?e ''c2'') (g_zones shirt) ?e)
      = Inr ()"
    by (simp add: engine_with_def checkValidation_def validateSwap_def valid_result_def)
  have handler: "\<forall>h sd. reciprocalSwapHandler ?e = Some h \<longrightarrow> h sd"
    by (simp add: engine_with_def)
  have ids: "''c1'' \<noteq> []" "''c2'' \<noteq> []" "''c1'' \<noteq> ''c2''" by simp_all
  have garm: "getGarmentById ''c1.3'' ?e = Inr shirt"
    by (simp add: engine_example_defs)
  have zs: "g_zones shirt = [''chest''] @ ''waist'' # []" by (simp add: shirt_def)
  have d: "distinct ([''chest''] @ ''waist'' # [])" by simp
  have maps: "bodyMaps ?e ''c1'' = Some body_c1" "bodyMaps ?e ''c2'' = Some body_c2"
    by (simp_all add: engine_with_def store12_def)
  have nofun: "\<forall>p\<in>set ([''chest''] @ ''waist'' # []).
      body_c1 p \<noteq> Some ZFunction \<and> body_c2 p \<noteq> Some ZFunction"
    by (simp add: body_c1_def body_c2_def plainObject_def inherited_def
         objectPrototypeMethods_def)
  have fs: "faults ?e = replicate (4 + 4 * length [''chest''] + 0) False @ True # []"
    by (simp add: engine_with_def)
  have k: "(0::nat) < 4" by simp
  from performSwap_partial_failure [OF ready ids garm passes handler zs d maps nofun fs k]
  obtain r e' A' B' where
    "performSwap ''c1'' ''c2'' ''c1.3'' ?e = (Inr (Some r), e')"
    "sr_success r" "sr_zones r = Some ([''chest''] @ ''waist'' # [])"
    "map zr_success (take (Suc (length [''chest''])) (sr_results r))
         = replicate (length [''chest'']) True @ [False]"
    "map zr_error (take (Suc (length [''chest''])) (sr_results r))
         = replicate (length [''chest'']) None @ [Some StorageFailure]"
    "bodyMaps e' ''c1'' = Some A'" "bodyMaps e' ''c2'' = Some B'"
    "\<forall>p. p \<in> set [''chest''] \<longrightarrow> A' p = body_c2 p \<and> B' p = body_c1 p"
    by blast
  then show ?thesis
    by (intro exI[of _ r] exI[of _ e'])
       (simp add: body_c1_def body_c2_def plainObject_def inherited_def
         objectPrototypeMethods_def eval_nat_numeral)
qed

text \<open>
  C3 as stated fails. The ninth storage call, the first of the exchange of waist, throws:
  the result has \<open>success = true\<close> and the zones chest and waist, with the failure of waist
  in the zone results only; chest stays exchanged.
\<close>

theorem performSwap_zone_failure_counterexample:
  "fst (performSwap ''c1'' ''c2'' ''c1.3'' (engine_with store12 (replicate 8 False @ [True]))) =
     Inr (Some \<lparr>sr_success = True, sr_swapId = (1000, 1),
                sr_zones = Some [''chest'', ''waist''],
                sr_results =
                  [\<lparr>zr_zone = ''chest'', zr_success = True,
                    zr_sourceData = Some (ZStr ''flat''), zr_targetData = Some (ZStr ''large''),
                    zr_error = None\<rparr>,
                   \<lparr>zr_zone = ''waist'', zr_success = False,
                    zr_sourceData = None, zr_targetData = None,
                    zr_error = Some StorageFailure\<rparr>],
                sr_error = None, sr_timestamp = 1000\<rparr>)
   \<and> zone_of (snd (performSwap ''c1'' ''c2'' ''c1.3''
         (engine_with store12 (replicate 8 False @ [True])))) ''c1'' ''chest''
       = Some (ZStr ''large'')
   \<and> zone_of (snd (performSwap ''c1'' ''c2'' ''c1.3''
         (engine_with store12 (replicate 8 False @ [True])))) ''c2'' ''chest''
       = Some (ZStr ''flat'')"
  by (simp add: engine_example_defs eval_nat_numeral)

text \<open>
  A swap of the zone \<open>constructor\<close>, which the body maps of c1 and c2 only inherit: the
  snapshot throws, and the swap fails as a whole.
\<close>

lemma executeSwap_inherited_zone_example:
  "fst (executeSwap ''c1'' ''c2'' [''constructor''] shirt (engine_with store12 []))
     = \<lparr>sr_success = False, sr_swapId = (1000, 1), sr_zones = None, sr_results = [],
        sr_error = Some JsonSyntaxError, sr_timestamp = 1000\<rparr>
   \<and> bodyMaps (snd (executeSwap ''c1'' ''c2'' [''constructor''] shirt (engine_with store12 [])))
     = store12
   \<and> activeSwaps (snd (executeSwap ''c1'' ''c2'' [''constructor''] shirt
        (engine_with store12 []))) = []"
  by (simp add: engine_example_defs)

text \<open>A garment type index behind a no-break space is read by \<open>parseInt\<close>.\<close>

lemma js_parseInt_no_break_space_example: "js_parseInt [CHR 0xA0, CHR ''3''] = Some 3"
  by (simp add: js_parseInt_def js_whitespace_def is_digit_def digits_value_def)

text \<open>
  The theorem of C4 at an engine with the strict policy and a validator that rejects the
  swap; the validation error is counted, so the validator was consulted.
\<close>

theorem performSwap_strict_validation_aborts_witness:
  "fst (performSwap ''c1'' ''c2'' ''c1.0'' strict_engine) = Inr None
   \<and> bodyMaps (snd (performSwap ''c1'' ''c2'' ''c1.0'' strict_engine)) = bodyMaps strict_engine
   \<and> activeSwaps (snd (performSwap ''c1'' ''c2'' ''c1.0'' strict_engine)) = []
   \<and> swapHistory (snd (performSwap ''c1'' ''c2'' ''c1.0'' strict_engine)) = []
   \<and> validationErrors (snd (performSwap ''c1'' ''c2'' ''c1.0'' strict_engine)) = 1"
proof -
  have ready: "isReady strict_engine"
    and strict: "autoValidation strict_engine" "validateTransformations strict_engine"
      "\<not> allowPartialTransformations strict_engine"
    by (simp_all add: strict_engine_def engine_with_def isReady_def)
  have invalid: "\<not> v_valid (fst (validateSwap (bodyMaps strict_engine ''c1'')
      (bodyMaps strict_engine ''c2'') (g_zones garm) strict_engine))" for garm
    by (simp add: validateSwap_def strict_engine_def)
  have counted: "validationErrors (snd (performSwap ''c1'' ''c2'' ''c1.0'' strict_engine)) = 1"
    by (simp add: engine_example_defs)
  have empty: "activeSwaps strict_engine = []" "swapHistory strict_engine = []"
    by (simp_all add: strict_engine_def engine_with_def)
  from performSwap_strict_validation_aborts
    [of strict_engine "''c1.0''" "''c1''" "''c2''", OF ready strict invalid] counted empty
  show ?thesis by simp
qed

text \<open>The theorem of C5 at equal characters and at an unknown swap id.\<close>

theorem precondition_failures_return_null_witness:
  "performSwap ''c1'' ''c1'' ''c1.0'' (engine_with store12 []) =
     (Inr None, handleError ''performSwap'' SameCharacter False
        ((engine_with store12 [])\<lparr>totalSwaps := totalSwaps (engine_with store12 []) + 1\<rparr>))
   \<and> reverseSwap (0, 0) (engine_with store12 []) =
     (Inr None, handleError ''reverseSwap'' (ActiveSwapNotFound (0, 0)) False
        (engine_with store12 []))"
proof -
  have ready: "isReady (engine_with store12 [])" by (simp add: engine_with_def isReady_def)
  have none: "map_of (activeSwaps (engine_with store12 [])) (0, 0) = None"
    by (simp add: engine_with_def)
  have ne: "''c1'' \<noteq> []" "''c1.0'' \<noteq> []" by simp_all
  from precondition_failures_return_null
    [OF ready, of "''c1''" "''c1''" "''c1.0''" "(0, 0)"] none ne
  show ?thesis by blast
qed

text \<open>
  C5 as stated fails: with the same character as source and target the caller receives
  null.
\<close>

theorem performSwap_same_character_counterexample:
  "fst (performSwap ''c1'' ''c1'' ''c1.0'' (engine_with store12 [])) = Inr None"
  by (simp add: engine_example_defs)

text \<open>
  A character without a stored body map does not fail a precondition: the swap runs, its
  result reports success, and each zone result reports the missing body map.
\<close>

lemma performSwap_missing_character_example:
  "(case fst (performSwap ''c1'' ''ghost'' ''c1.3'' (engine_with store12 [])) of
      Inr (Some r) \<Rightarrow>
        sr_success r \<and> sr_zones r = Some [''chest'', ''waist'']
        \<and> map zr_success (sr_results r) = [False, False]
        \<and> map zr_error (sr_results r) = [Some MissingBodyMap, Some MissingBodyMap]
    | _ \<Rightarrow> False)"
  by (simp add: engine_example_defs)

text \<open>The theorem of C6 at the orders chest, waist and waist, chest.\<close>

theorem executeSwap_zone_order_irrelevant_witness:
  "sr_success (fst (executeSwap ''c1'' ''c2'' [''chest'', ''waist''] shirt (engine_with store12 [])))
   \<and> sr_success (fst (executeSwap ''c1'' ''c2'' [''waist'', ''chest''] shirt (engine_with store12 [])))
   \<and> bodyMaps (snd (executeSwap ''c1'' ''c2'' [''chest'', ''waist''] shirt (engine_with store12 [])))
     = bodyMaps (snd (executeSwap ''c1'' ''c2'' [''waist'', ''chest''] shirt (engine_with store12 [])))"
proof -
  let ?e = "engine_with store12 []"
  let ?x1 = "executeSwap ''c1'' ''c2'' [''chest'', ''waist''] shirt ?e"
  let ?x2 = "executeSwap ''c1'' ''c2'' [''waist'', ''chest''] shirt ?e"
  have ok1: "sr_success (fst ?x1)" "list_all zr_success (sr_results (fst ?x1))"
    by (simp_all add: engine_example_defs)
  have ok2: "sr_success (fst ?x2)" "list_all zr_success (sr_results (fst ?x2))"
    by (simp_all add: engine_example_defs)
  have ab: "''c1'' \<noteq> ''c2''" by simp
  have d: "distinct [''chest'', ''waist'']" by simp
  have perm: "mset [''waist'', ''chest''] = mset [''chest'', ''waist'']" by simp
  have x1: "?x1 = (fst ?x1, snd ?x1)" and x2: "?x2 = (fst ?x2, snd ?x2)" by simp_all
  from executeSwap_zone_order_irrelevant [OF ab d perm x1 x2 ok1 ok2] ok1(1) ok2(1)
  show ?thesis by blast
qed

text \<open>The theorem of C10 at the state after one successful swap.\<close>

theorem active_set_holds_active_swaps_only_witness:
  "reachable (snd (performSwap ''c1'' ''c2'' ''c1.0'' (engine_with store12 [])))
   \<and> length (activeSwaps (snd (performSwap ''c1'' ''c2'' ''c1.0'' (engine_with store12 [])))) = 1
   \<and> active_set_ok (snd (performSwap ''c1'' ''c2'' ''c1.0'' (engine_with store12 [])))"
proof -
  have "activeSwaps (engine_with store12 []) = []" by (simp add: engine_with_def)
  then have r: "reachable (snd (performSwap ''c1'' ''c2'' ''c1.0'' (engine_with store12 [])))"
    by (intro reachable.perform reachable.init)
  have l: "length (activeSwaps (snd (performSwap ''c1'' ''c2'' ''c1.0'' (engine_with store12 [])))) = 1"
    by (simp add: engine_example_defs)
  from active_set_holds_active_swaps_only [OF r] r l show ?thesis by blast
qed

end
